theory Spec2Isabelle
  imports Complex_Main "HOL-Library.Log_Nat"
begin

section \<open>Numbers\<close>

text \<open>
  Every number of \<^verbatim>\<open>NeuralNetwork.js\<close> is an ECMAScript Number. The arithmetic the
  source uses is a parameter of the model: a record of the operations, so that a property
  proved for every such record holds whatever the rounding is, and a property that needs
  exact arithmetic says so in its hypotheses. \<open>flt A x y\<close> is \<^verbatim>\<open>x < y\<close> (and
  \<^verbatim>\<open>x > y\<close> is \<open>flt A y x\<close>), \<open>flit A q\<close> is the Number a decimal literal or
  a counter with the value \<open>q\<close> denotes, \<open>fnan A\<close> is what \<^verbatim>\<open>undefined\<close> becomes in
  arithmetic.
\<close>

record 'n arith =
  fadd :: "'n \<Rightarrow> 'n \<Rightarrow> 'n"
  fsub :: "'n \<Rightarrow> 'n \<Rightarrow> 'n"
  fmul :: "'n \<Rightarrow> 'n \<Rightarrow> 'n"
  fdiv :: "'n \<Rightarrow> 'n \<Rightarrow> 'n"
  fneg :: "'n \<Rightarrow> 'n"
  flt :: "'n \<Rightarrow> 'n \<Rightarrow> bool"
  fabs :: "'n \<Rightarrow> 'n"
  fmax :: "'n \<Rightarrow> 'n \<Rightarrow> 'n"
  flit :: "rat \<Rightarrow> 'n"
  fnan :: "'n"

text \<open>\<^verbatim>\<open>Math.exp\<close> and \<^verbatim>\<open>Math.sqrt\<close>, which only the activations and the
  initialisation call.\<close>

record 'n jsmath = "'n arith" +
  fexp :: "'n \<Rightarrow> 'n"
  fsqrt :: "'n \<Rightarrow> 'n"

datatype 'a ext = NaN | Fin 'a

fun lift1 :: "('a \<Rightarrow> 'a) \<Rightarrow> 'a ext \<Rightarrow> 'a ext" where
  "lift1 f (Fin x) = Fin (f x)"
| "lift1 f NaN = NaN"

fun lift2 :: "('a \<Rightarrow> 'a \<Rightarrow> 'a) \<Rightarrow> 'a ext \<Rightarrow> 'a ext \<Rightarrow> 'a ext" where
  "lift2 f (Fin x) (Fin y) = Fin (f x y)"
| "lift2 f _ _ = NaN"

fun quot :: "'a::field ext \<Rightarrow> 'a ext \<Rightarrow> 'a ext" where
  "quot (Fin x) (Fin y) = (if y = 0 then NaN else Fin (x / y))"
| "quot _ _ = NaN"

fun less_ext :: "'a::ord ext \<Rightarrow> 'a ext \<Rightarrow> bool" where
  "less_ext (Fin x) (Fin y) = (x < y)"
| "less_ext _ _ = False"

fun root :: "real ext \<Rightarrow> real ext" where
  "root (Fin x) = (if x < 0 then NaN else Fin (sqrt x))"
| "root NaN = NaN"

text \<open>
  Exact arithmetic on the reals, with NaN: every operation gives NaN on a NaN operand and
  every comparison with NaN is false, as in IEEE 754. The infinities are not in the
  carrier; a quotient by zero is NaN here.
\<close>

definition exact :: "real ext jsmath" where
  "exact = \<lparr> fadd = lift2 (+), fsub = lift2 (-), fmul = lift2 (*), fdiv = quot,
     fneg = lift1 uminus, flt = less_ext, fabs = lift1 abs, fmax = lift2 max,
     flit = (\<lambda>q. Fin (of_rat q)), fnan = NaN, fexp = lift1 exp, fsqrt = root \<rparr>"

text \<open>
  binary64 with round to nearest, ties to even, on the range where no result overflows
  or is subnormal: a finite value is the rational it denotes, and every operation rounds
  the exact result to 53 significant bits. The infinities are not in the carrier; a
  quotient by zero is NaN here. \<open>expo x\<close> is the exponent of \<open>x \<noteq> 0\<close>:
  \<open>2 ^ expo x \<le> \<bar>x\<bar> < 2 ^ (expo x + 1)\<close>.
\<close>

definition expo :: "rat \<Rightarrow> int" where
  "expo x = (let p = fst (quotient_of \<bar>x\<bar>); q = snd (quotient_of \<bar>x\<bar>);
                 e = bitlen p - bitlen q
             in if \<bar>x\<bar> < power_int 2 e then e - 1 else e)"

definition round53 :: "rat \<Rightarrow> rat" where
  "round53 x = (if x = 0 then 0 else
     let u = power_int 2 (expo x - 52); y = x / u; f = \<lfloor>y\<rfloor>; d = y - of_int f;
         n = (if d < 1 / 2 \<or> (d = 1 / 2 \<and> even f) then f else f + 1)
     in of_int n * u)"

definition binary64 :: "rat ext arith" where
  "binary64 = \<lparr> fadd = lift2 (\<lambda>x y. round53 (x + y)), fsub = lift2 (\<lambda>x y. round53 (x - y)),
     fmul = lift2 (\<lambda>x y. round53 (x * y)),
     fdiv = (\<lambda>a b. lift1 round53 (quot a b)),
     fneg = lift1 uminus, flt = less_ext, fabs = lift1 abs, fmax = lift2 max,
     flit = (\<lambda>q. Fin (round53 q)), fnan = NaN \<rparr>"

section \<open>The network\<close>

text \<open>
  What a call can end in other than a value: a \<^verbatim>\<open>TypeError\<close> (a property read on
  \<^verbatim>\<open>undefined\<close>), an \<^verbatim>\<open>Error\<close> thrown by the source with its message, and the
  call of an activation that is no function on numbers (a member of
  \<^verbatim>\<open>Object.prototype\<close> that \<^verbatim>\<open>fromJSON\<close> can bind, see there): such a call throws
  or returns a string, a boolean or an object, where the numeric model ends.
\<close>

datatype failure = TypeError | Error string | NonNumericActivation

datatype 'n activation = NumFn "'n \<Rightarrow> 'n" | ObjectProtoMember string

record 'n network =
  layers :: "int list"
  activation :: "'n activation"
  activationName :: string
  weights :: "'n list list list"
  biases :: "'n list list"
  layerOutputs :: "'n list list"
  useOptimizedOperations :: bool

text \<open>\<^verbatim>\<open>xs[k]\<close> used as a number: out of range it is \<^verbatim>\<open>undefined\<close>, NaN in
  arithmetic. \<^verbatim>\<open>xs[i]\<close> used as an array: out of range it is \<^verbatim>\<open>undefined\<close>, and a
  property read on it throws.\<close>

definition num_at :: "('n, 'm) arith_scheme \<Rightarrow> 'n list \<Rightarrow> nat \<Rightarrow> 'n" where
  "num_at A xs k = (if k < length xs then xs ! k else fnan A)"

definition arr_at :: "'a list \<Rightarrow> nat \<Rightarrow> 'a option" where
  "arr_at xs i = (if i < length xs then Some (xs ! i) else None)"

definition call_activation :: "'n activation \<Rightarrow> 'n \<Rightarrow> failure + 'n" where
  "call_activation act x = (case act of NumFn f \<Rightarrow> Inr (f x) | ObjectProtoMember _ \<Rightarrow> Inl NonNumericActivation)"

subsection \<open>Forward evaluation\<close>

text \<open>The \<^verbatim>\<open>k\<close> loop of \<^verbatim>\<open>feedForward\<close>, lines 92-94: one product added to
  \<^verbatim>\<open>sum\<close> per weight of the neuron, in ascending order.\<close>

definition weighted_sum :: "('n, 'm) arith_scheme \<Rightarrow> 'n list \<Rightarrow> 'n list \<Rightarrow> 'n \<Rightarrow> 'n" where
  "weighted_sum A outputs ws sum0 =
     foldl (\<lambda>sm k. fadd A sm (fmul A (num_at A outputs k) (ws ! k))) sum0 [0..<length ws]"

text \<open>The \<^verbatim>\<open>m\<close> loop of \<^verbatim>\<open>feedForwardOptimized\<close>, lines 137-139.\<close>

definition remainder_sum ::
  "('n, 'm) arith_scheme \<Rightarrow> 'n list \<Rightarrow> 'n list \<Rightarrow> nat \<Rightarrow> nat \<Rightarrow> 'n \<Rightarrow> 'n" where
  "remainder_sum A outputs ws prevLayerSize k sum0 =
     foldl (\<lambda>sm m. fadd A sm (fmul A (num_at A outputs m) (num_at A ws m))) sum0 [k..<prevLayerSize]"

text \<open>The \<^verbatim>\<open>k\<close> loop of \<^verbatim>\<open>feedForwardOptimized\<close>, lines 128-141: the four
  products of a full block are added to each other first, from the left, and their sum is
  added to \<^verbatim>\<open>sum\<close>.\<close>

function unrolled_sum ::
  "('n, 'm) arith_scheme \<Rightarrow> 'n list \<Rightarrow> 'n list \<Rightarrow> nat \<Rightarrow> nat \<Rightarrow> 'n \<Rightarrow> 'n" where
  "unrolled_sum A outputs ws prevLayerSize k sm =
     (if k < prevLayerSize then
        (if k + 3 < prevLayerSize then
           unrolled_sum A outputs ws prevLayerSize (k + 4)
             (fadd A sm
               (fadd A
                 (fadd A
                   (fadd A (fmul A (num_at A outputs k) (num_at A ws k))
                           (fmul A (num_at A outputs (k + 1)) (num_at A ws (k + 1))))
                   (fmul A (num_at A outputs (k + 2)) (num_at A ws (k + 2))))
                 (fmul A (num_at A outputs (k + 3)) (num_at A ws (k + 3)))))
         else
           unrolled_sum A outputs ws prevLayerSize (k + 4)
             (remainder_sum A outputs ws prevLayerSize k sm))
      else sm)"
  by pat_completeness auto
termination
  by (relation "measure (\<lambda>(A, outputs, ws, prevLayerSize, k, sm). prevLayerSize - k)") auto

declare unrolled_sum.simps [simp del]

text \<open>The \<^verbatim>\<open>j\<close> loop: the neurons of a layer one after the other, stopping at the
  first that throws.\<close>

fun each_neuron :: "(nat \<Rightarrow> failure + 'n) \<Rightarrow> nat list \<Rightarrow> failure + 'n list" where
  "each_neuron f [] = Inr []"
| "each_neuron f (j # js) =
     (case f j of Inl e \<Rightarrow> Inl e
      | Inr y \<Rightarrow> (case each_neuron f js of Inl e \<Rightarrow> Inl e | Inr ys \<Rightarrow> Inr (y # ys)))"

text \<open>Lines 88-98. \<^verbatim>\<open>this.biases[i][j]\<close> throws when \<^verbatim>\<open>this.biases\<close> has no entry
  \<open>i\<close>, and is NaN in the sum when that entry has no element \<open>j\<close>.\<close>

definition plain_layer ::
  "('n, 'm) arith_scheme \<Rightarrow> 'n network \<Rightarrow> 'n list \<Rightarrow> 'n list list \<Rightarrow> nat \<Rightarrow> failure + 'n list" where
  "plain_layer A net outputs wl i =
     each_neuron
       (\<lambda>j. case arr_at (biases net) i of
              None \<Rightarrow> Inl TypeError
            | Some bl \<Rightarrow> call_activation (activation net) (weighted_sum A outputs (wl ! j) (num_at A bl j)))
       [0..<length wl]"

text \<open>Lines 118-145. \<^verbatim>\<open>this.weights[i][0].length\<close> throws when the layer has no
  neuron; every neuron is summed over \<^verbatim>\<open>prevLayerSize\<close>, the length of the first
  neuron's weights.\<close>

definition optimized_layer ::
  "('n, 'm) arith_scheme \<Rightarrow> 'n network \<Rightarrow> 'n list \<Rightarrow> 'n list list \<Rightarrow> nat \<Rightarrow> failure + 'n list" where
  "optimized_layer A net outputs wl i =
     (case wl of
        [] \<Rightarrow> Inl TypeError
      | w0 # _ \<Rightarrow>
          (let currentLayerSize = length wl; prevLayerSize = length w0 in
           each_neuron
             (\<lambda>j. case arr_at (biases net) i of
                    None \<Rightarrow> Inl TypeError
                  | Some bl \<Rightarrow> call_activation (activation net)
                      (unrolled_sum A outputs (wl ! j) prevLayerSize 0 (num_at A bl j)))
             [0..<currentLayerSize]))"

text \<open>The \<^verbatim>\<open>i\<close> loop of both functions: the output of a layer is the input of the
  next; the result lists the outputs of the layers, in order.\<close>

fun propagate ::
  "('n list \<Rightarrow> 'n list list \<Rightarrow> nat \<Rightarrow> failure + 'n list) \<Rightarrow> nat \<Rightarrow> 'n list \<Rightarrow> 'n list list list
     \<Rightarrow> failure + 'n list list" where
  "propagate layer i outputs [] = Inr []"
| "propagate layer i outputs (wl # wls) =
     (case layer outputs wl i of
        Inl e \<Rightarrow> Inl e
      | Inr out \<Rightarrow>
          (case propagate layer (Suc i) out wls of
             Inl e \<Rightarrow> Inl e
           | Inr rest \<Rightarrow> Inr (out # rest)))"

text \<open>\<^verbatim>\<open>feedForwardOptimized\<close>, lines 112-152: the returned outputs, and the network
  with its cache \<^verbatim>\<open>layerOutputs\<close> set. (When the call throws, the cache of the source
  holds the layers done so far; the model keeps the failure only.)\<close>

definition feedForwardOptimized ::
  "('n, 'm) arith_scheme \<Rightarrow> 'n network \<Rightarrow> 'n list \<Rightarrow> failure + ('n list \<times> 'n network)" where
  "feedForwardOptimized A net inputs =
     (case propagate (optimized_layer A net) 0 inputs (weights net) of
        Inl e \<Rightarrow> Inl e
      | Inr outs \<Rightarrow> Inr (last (inputs # outs), net\<lparr>layerOutputs := inputs # outs\<rparr>))"

text \<open>The body of \<^verbatim>\<open>feedForward\<close> after its first statement, lines 80-104: the
  accumulation without unrolling.\<close>

definition feedForward_plain ::
  "('n, 'm) arith_scheme \<Rightarrow> 'n network \<Rightarrow> 'n list \<Rightarrow> failure + ('n list \<times> 'n network)" where
  "feedForward_plain A net inputs =
     (case propagate (plain_layer A net) 0 inputs (weights net) of
        Inl e \<Rightarrow> Inl e
      | Inr outs \<Rightarrow> Inr (last (inputs # outs), net\<lparr>layerOutputs := inputs # outs\<rparr>))"

text \<open>\<^verbatim>\<open>feedForward\<close>, lines 75-105.\<close>

definition feedForward ::
  "('n, 'm) arith_scheme \<Rightarrow> 'n network \<Rightarrow> 'n list \<Rightarrow> failure + ('n list \<times> 'n network)" where
  "feedForward A net inputs =
     (if useOptimizedOperations net then feedForwardOptimized A net inputs
      else feedForward_plain A net inputs)"

subsection \<open>Activations\<close>

text \<open>Lines 380-419. A literal \<^verbatim>\<open>-15\<close> is the negation of \<^verbatim>\<open>15\<close>; the parameter
  \<^verbatim>\<open>alpha\<close> of \<^verbatim>\<open>leakyRelu\<close> is \<^verbatim>\<open>0.01\<close> when the call gives none.\<close>

definition sigmoid :: "('n, 'm) jsmath_scheme \<Rightarrow> 'n \<Rightarrow> 'n" where
  "sigmoid M x =
     (if flt M x (fneg M (flit M 15)) then flit M 0
      else if flt M (flit M 15) x then flit M 1
      else fdiv M (flit M 1) (fadd M (flit M 1) (fexp M (fneg M x))))"

definition relu :: "('n, 'm) arith_scheme \<Rightarrow> 'n \<Rightarrow> 'n" where
  "relu A x = fmax A (flit A 0) x"

definition leakyRelu :: "('n, 'm) arith_scheme \<Rightarrow> 'n \<Rightarrow> 'n option \<Rightarrow> 'n" where
  "leakyRelu A x alpha =
     (let a = (case alpha of None \<Rightarrow> flit A (1 / 100) | Some v \<Rightarrow> v)
      in if flt A (flit A 0) x then x else fmul A a x)"

definition tanh_js :: "('n, 'm) jsmath_scheme \<Rightarrow> 'n \<Rightarrow> 'n" where
  "tanh_js M x =
     (if flt M (flit M 10) x then flit M 1
      else if flt M x (fneg M (flit M 10)) then fneg M (flit M 1)
      else (let e2x = fexp M (fmul M (flit M 2) x)
            in fdiv M (fsub M e2x (flit M 1)) (fadd M e2x (flit M 1))))"

subsection \<open>Construction\<close>

text \<open>\<^verbatim>\<open>Math.random()\<close> reads a global source: the model passes the sequence of the
  draws still to come, and a draw takes its head.\<close>

type_synonym 'n rng = "nat \<Rightarrow> 'n"

definition advance :: "'n rng \<Rightarrow> 'n rng" where
  "advance rs = (\<lambda>i. rs (Suc i))"

text \<open>\<^verbatim>\<open>(Math.random() * 2 - 1) * scale\<close>, lines 57, 62, 166 and 177.\<close>

definition spread :: "('n, 'm) arith_scheme \<Rightarrow> 'n \<Rightarrow> 'n \<Rightarrow> 'n" where
  "spread A r scale = fmul A (fsub A (fmul A r (flit A 2)) (flit A 1)) scale"

text \<open>Lines 55-58: the weights of one neuron.\<close>

fun init_neuron :: "('n, 'm) arith_scheme \<Rightarrow> 'n \<Rightarrow> nat \<Rightarrow> 'n rng \<Rightarrow> 'n list \<times> 'n rng" where
  "init_neuron A weightScale 0 rs = ([], rs)"
| "init_neuron A weightScale (Suc n) rs =
     (let w = spread A (rs 0) weightScale;
          (ws, rs') = init_neuron A weightScale n (advance rs)
      in (w # ws, rs'))"

text \<open>Lines 51-63: the neurons of one layer, each with its weights and then its bias.\<close>

fun init_layer ::
  "('n, 'm) arith_scheme \<Rightarrow> 'n \<Rightarrow> nat \<Rightarrow> nat \<Rightarrow> 'n rng \<Rightarrow> 'n list list \<times> 'n list \<times> 'n rng" where
  "init_layer A weightScale fanIn 0 rs = ([], [], rs)"
| "init_layer A weightScale fanIn (Suc n) rs =
     (let (neuronWeights, rs1) = init_neuron A weightScale fanIn rs;
          b = spread A (rs1 0) (flit A (1 / 10));
          (layerWeights, layerBiases, rs2) = init_layer A weightScale fanIn n (advance rs1)
      in (neuronWeights # layerWeights, b # layerBiases, rs2))"

text \<open>Lines 41-67: one pass per pair of consecutive layer sizes. A loop bounded by a
  size that is not positive does not run.\<close>

fun init_layers ::
  "('n, 'm) jsmath_scheme \<Rightarrow> int list \<Rightarrow> 'n rng \<Rightarrow> 'n list list list \<times> 'n list list \<times> 'n rng" where
  "init_layers M (fanIn # fanOut # rest) rs =
     (let weightScale = fsqrt M (fdiv M (flit M 2) (fadd M (flit M (of_int fanIn)) (flit M (of_int fanOut))));
          (layerWeights, layerBiases, rs1) = init_layer M weightScale (nat fanIn) (nat fanOut) rs;
          (ws, bs, rs2) = init_layers M (fanOut # rest) rs1
      in (layerWeights # ws, layerBiases # bs, rs2))"
| "init_layers M _ rs = ([], [], rs)"

definition initialize :: "('n, 'm) jsmath_scheme \<Rightarrow> 'n network \<Rightarrow> 'n rng \<Rightarrow> 'n network \<times> 'n rng" where
  "initialize M net rs =
     (let (ws, bs, rs') = init_layers M (layers net) rs
      in (net\<lparr>weights := weights net @ ws, biases := biases net @ bs\<rparr>, rs'))"

text \<open>The argument of the constructor: every property may be absent.\<close>

record 'n options =
  opt_layers :: "int list option"
  opt_activation :: "'n activation option"
  opt_activationName :: "string option"
  opt_weights :: "'n list list list option"
  opt_biases :: "'n list list option"

text \<open>The constructor, lines 14-34. The empty string is falsy, an array never is.\<close>

definition NeuralNetwork ::
  "('n, 'm) jsmath_scheme \<Rightarrow> 'n options \<Rightarrow> 'n rng \<Rightarrow> 'n network \<times> 'n rng" where
  "NeuralNetwork M opts rs =
     (let net = \<lparr> layers = (case opt_layers opts of None \<Rightarrow> [3, 4, 2] | Some l \<Rightarrow> l),
                  activation = (case opt_activation opts of None \<Rightarrow> NumFn (sigmoid M) | Some f \<Rightarrow> f),
                  activationName =
                    (case opt_activationName opts of
                       None \<Rightarrow> ''sigmoid''
                     | Some name \<Rightarrow> if name = [] then ''sigmoid'' else name),
                  weights = [], biases = [], layerOutputs = [],
                  useOptimizedOperations = True \<rparr>
      in case opt_weights opts of
           None \<Rightarrow> initialize M net rs
         | Some w \<Rightarrow>
             (case opt_biases opts of
                None \<Rightarrow> initialize M net rs
              | Some b \<Rightarrow> (net\<lparr>weights := w, biases := b\<rparr>, rs)))"

subsection \<open>Genetic operators\<close>

text \<open>A loop over the elements of an array that threads a state (the random source, a
  counter) and gives the new elements.\<close>

fun map_state :: "('a \<Rightarrow> 's \<Rightarrow> 'b \<times> 's) \<Rightarrow> 'a list \<Rightarrow> 's \<Rightarrow> 'b list \<times> 's" where
  "map_state f [] s = ([], s)"
| "map_state f (x # xs) s =
     (let (y, s1) = f x s; (ys, s2) = map_state f xs s1 in (y # ys, s2))"

text \<open>Lines 164-167 and 175-178: one element under \<^verbatim>\<open>mutate\<close>.\<close>

definition mutate_value :: "('n, 'm) arith_scheme \<Rightarrow> 'n \<Rightarrow> 'n \<Rightarrow> 'n \<Rightarrow> 'n rng \<Rightarrow> 'n \<times> 'n rng" where
  "mutate_value A rate amount v rs =
     (if flt A (rs 0) rate
      then (fadd A v (spread A (rs 1) amount), advance (advance rs))
      else (v, advance rs))"

text \<open>\<^verbatim>\<open>mutate\<close>, lines 159-181: the weights, then the biases, in place.\<close>

definition mutate ::
  "('n, 'm) arith_scheme \<Rightarrow> 'n network \<Rightarrow> 'n option \<Rightarrow> 'n option \<Rightarrow> 'n rng \<Rightarrow> 'n network \<times> 'n rng" where
  "mutate A net rate_arg amount_arg rs =
     (let rate = (case rate_arg of None \<Rightarrow> flit A (1 / 10) | Some r \<Rightarrow> r);
          amount = (case amount_arg of None \<Rightarrow> flit A (1 / 2) | Some a \<Rightarrow> a);
          (ws, rs1) = map_state (map_state (map_state (mutate_value A rate amount))) (weights net) rs;
          (bs, rs2) = map_state (map_state (mutate_value A rate amount)) (biases net) rs1
      in (net\<lparr>weights := ws, biases := bs\<rparr>, rs2))"

text \<open>A loop over indices that threads a state, gives the values it pushes, and stops
  at the first pass that throws.\<close>

fun for_each ::
  "(nat \<Rightarrow> 's \<Rightarrow> failure + ('b \<times> 's)) \<Rightarrow> nat list \<Rightarrow> 's \<Rightarrow> failure + ('b list \<times> 's)" where
  "for_each body [] s = Inr ([], s)"
| "for_each body (i # rest) s =
     (case body i s of
        Inl e \<Rightarrow> Inl e
      | Inr (y, s1) \<Rightarrow>
          (case for_each body rest s1 of
             Inl e \<Rightarrow> Inl e
           | Inr (ys, s2) \<Rightarrow> Inr (y # ys, s2)))"

text \<open>\<^verbatim>\<open>other.weights[i][j][k]\<close> and \<^verbatim>\<open>other.biases[i][j]\<close>: a missing array throws
  at the next index, a missing element is \<^verbatim>\<open>undefined\<close>.\<close>

definition weight_at ::
  "('n, 'm) arith_scheme \<Rightarrow> 'n list list list \<Rightarrow> nat \<Rightarrow> nat \<Rightarrow> nat \<Rightarrow> failure + 'n" where
  "weight_at A ws i j k =
     (case arr_at ws i of
        None \<Rightarrow> Inl TypeError
      | Some wl \<Rightarrow> (case arr_at wl j of None \<Rightarrow> Inl TypeError | Some row \<Rightarrow> Inr (num_at A row k)))"

definition bias_at :: "('n, 'm) arith_scheme \<Rightarrow> 'n list list \<Rightarrow> nat \<Rightarrow> nat \<Rightarrow> failure + 'n" where
  "bias_at A bs i j =
     (case arr_at bs i of None \<Rightarrow> Inl TypeError | Some bl \<Rightarrow> Inr (num_at A bl j))"

text \<open>Lines 214-218 and 233-237: the element of the other parent is read only when the
  draw chooses it.\<close>

definition pick_gene ::
  "('n, 'm) arith_scheme \<Rightarrow> 'n \<Rightarrow> 'n \<Rightarrow> failure + 'n \<Rightarrow> 'n rng \<Rightarrow> failure + ('n \<times> 'n rng)" where
  "pick_gene A crossoverRate mine theirs rs =
     (if flt A (rs 0) crossoverRate then Inr (mine, advance rs)
      else (case theirs of Inl e \<Rightarrow> Inl e | Inr v \<Rightarrow> Inr (v, advance rs)))"

definition cross_weights ::
  "('n, 'm) arith_scheme \<Rightarrow> 'n \<Rightarrow> 'n list list list \<Rightarrow> 'n list list list \<Rightarrow> 'n rng
     \<Rightarrow> failure + ('n list list list \<times> 'n rng)" where
  "cross_weights A crossoverRate ws ows =
     for_each (\<lambda>i.
       for_each (\<lambda>j.
         for_each (\<lambda>k. pick_gene A crossoverRate (ws ! i ! j ! k) (weight_at A ows i j k))
           [0..<length (ws ! i ! j)])
         [0..<length (ws ! i)])
       [0..<length ws]"

definition cross_biases ::
  "('n, 'm) arith_scheme \<Rightarrow> 'n \<Rightarrow> 'n list list \<Rightarrow> 'n list list \<Rightarrow> 'n rng
     \<Rightarrow> failure + ('n list list \<times> 'n rng)" where
  "cross_biases A crossoverRate bs obs =
     for_each (\<lambda>i.
       for_each (\<lambda>j. pick_gene A crossoverRate (bs ! i ! j) (bias_at A obs i j))
         [0..<length (bs ! i)])
       [0..<length bs]"

text \<open>\<^verbatim>\<open>crossover\<close>, lines 189-251.\<close>

definition crossover ::
  "('n, 'm) jsmath_scheme \<Rightarrow> 'n network \<Rightarrow> 'n network \<Rightarrow> 'n option \<Rightarrow> 'n rng
     \<Rightarrow> failure + ('n network \<times> 'n rng)" where
  "crossover M net other rate_arg rs =
     (let crossoverRate = (case rate_arg of None \<Rightarrow> flit M (1 / 2) | Some r \<Rightarrow> r) in
      if length (layers net) \<noteq> length (layers other)
      then Inl (Error ''Cannot crossover networks with different architectures'')
      else if list_ex (\<lambda>i. layers net ! i \<noteq> layers other ! i) [0..<length (layers net)]
      then Inl (Error ''Cannot crossover networks with different layer sizes'')
      else
        (case cross_weights M crossoverRate (weights net) (weights other) rs of
           Inl e \<Rightarrow> Inl e
         | Inr (newWeights, rs1) \<Rightarrow>
             (case cross_biases M crossoverRate (biases net) (biases other) rs1 of
                Inl e \<Rightarrow> Inl e
              | Inr (newBiases, rs2) \<Rightarrow>
                  Inr (NeuralNetwork M
                         \<lparr> opt_layers = Some (layers net),
                           opt_activation = Some (activation net),
                           opt_activationName = Some (activationName net),
                           opt_weights = Some newWeights,
                           opt_biases = Some newBiases \<rparr> rs2))))"

text \<open>A loop over indices that updates a state and stops at the first pass that
  throws.\<close>

fun for_loop :: "(nat \<Rightarrow> 's \<Rightarrow> failure + 's) \<Rightarrow> nat list \<Rightarrow> 's \<Rightarrow> failure + 's" where
  "for_loop body [] s = Inr s"
| "for_loop body (i # rest) s =
     (case body i s of Inl e \<Rightarrow> Inl e | Inr s1 \<Rightarrow> for_loop body rest s1)"

text \<open>Lines 299-300 and 308-309: \<^verbatim>\<open>totalDiff\<close> and \<^verbatim>\<open>totalElements\<close> after one
  more element.\<close>

definition tally ::
  "('n, 'm) arith_scheme \<Rightarrow> 'n \<Rightarrow> failure + 'n \<Rightarrow> 'n \<times> nat \<Rightarrow> failure + ('n \<times> nat)" where
  "tally A mine theirs st =
     (case theirs of
        Inl e \<Rightarrow> Inl e
      | Inr v \<Rightarrow> Inr (fadd A (fst st) (fabs A (fsub A mine v)), Suc (snd st)))"

text \<open>\<^verbatim>\<open>difference\<close>, lines 291-315.\<close>

definition difference :: "('n, 'm) arith_scheme \<Rightarrow> 'n network \<Rightarrow> 'n network \<Rightarrow> failure + 'n" where
  "difference A net other =
     (case for_loop (\<lambda>i.
             for_loop (\<lambda>j.
               for_loop (\<lambda>k. tally A (weights net ! i ! j ! k) (weight_at A (weights other) i j k))
                 [0..<length (weights net ! i ! j)])
               [0..<length (weights net ! i)])
             [0..<length (weights net)] (flit A 0, 0) of
        Inl e \<Rightarrow> Inl e
      | Inr st \<Rightarrow>
          (case for_loop (\<lambda>i.
                  for_loop (\<lambda>j. tally A (biases net ! i ! j) (bias_at A (biases other) i j))
                    [0..<length (biases net ! i)])
                  [0..<length (biases net)] st of
             Inl e \<Rightarrow> Inl e
           | Inr (totalDiff, totalElements) \<Rightarrow>
               Inr (if totalElements > 0 then fdiv A totalDiff (flit A (of_nat totalElements))
                    else flit A 0)))"

text \<open>Lines 329-332: one weight under \<^verbatim>\<open>prune\<close>, with the counter.\<close>

definition prune_value :: "('n, 'm) arith_scheme \<Rightarrow> 'n \<Rightarrow> 'n \<Rightarrow> nat \<Rightarrow> 'n \<times> nat" where
  "prune_value A threshold w prunedCount =
     (if flt A (fabs A w) threshold then (flit A 0, Suc prunedCount) else (w, prunedCount))"

text \<open>\<^verbatim>\<open>prune\<close>, lines 322-338: the count it returns, and the network.\<close>

definition prune :: "('n, 'm) arith_scheme \<Rightarrow> 'n network \<Rightarrow> 'n option \<Rightarrow> nat \<times> 'n network" where
  "prune A net threshold_arg =
     (let threshold = (case threshold_arg of None \<Rightarrow> flit A (1 / 100) | Some t \<Rightarrow> t);
          (ws, prunedCount) = map_state (map_state (map_state (prune_value A threshold))) (weights net) 0
      in (prunedCount, net\<lparr>weights := ws\<rparr>))"

subsection \<open>Serialization\<close>

record 'n json =
  json_layers :: "int list option"
  json_activationName :: "string option"
  json_weights :: "'n list list list option"
  json_biases :: "'n list list option"

text \<open>\<^verbatim>\<open>toJSON\<close>, lines 343-350.\<close>

definition toJSON :: "'n network \<Rightarrow> 'n json" where
  "toJSON net = \<lparr> json_layers = Some (layers net), json_activationName = Some (activationName net),
                  json_weights = Some (weights net), json_biases = Some (biases net) \<rparr>"

text \<open>
  \<^verbatim>\<open>activationMap\<close> of \<^verbatim>\<open>fromJSON\<close> is an object literal: a read
  \<^verbatim>\<open>activationMap[name]\<close> finds its four own properties and, for any other name, the
  properties the literal inherits from \<^verbatim>\<open>Object.prototype\<close> (ECMAScript 2015, 19.1.3
  and B.2.2), every one of them a function or an object, hence truthy.
\<close>

definition object_prototype_keys :: "string list" where
  "object_prototype_keys =
     [''constructor'', ''hasOwnProperty'', ''isPrototypeOf'', ''propertyIsEnumerable'',
      ''toLocaleString'', ''toString'', ''valueOf'', ''__proto__'',
      ''__defineGetter__'', ''__defineSetter__'', ''__lookupGetter__'', ''__lookupSetter__'']"

definition activationMap :: "('n, 'm) jsmath_scheme \<Rightarrow> string \<Rightarrow> 'n activation option" where
  "activationMap M name =
     (if name = ''sigmoid'' then Some (NumFn (sigmoid M))
      else if name = ''relu'' then Some (NumFn (relu M))
      else if name = ''tanh'' then Some (NumFn (tanh_js M))
      else if name = ''leakyRelu'' then Some (NumFn (\<lambda>x. leakyRelu M x None))
      else if name \<in> set object_prototype_keys then Some (ObjectProtoMember name)
      else None)"

text \<open>\<^verbatim>\<open>fromJSON\<close>, lines 357-373. An absent \<^verbatim>\<open>activationName\<close> is looked up as
  the key \<^verbatim>\<open>undefined\<close>.\<close>

definition fromJSON :: "('n, 'm) jsmath_scheme \<Rightarrow> 'n json \<Rightarrow> 'n rng \<Rightarrow> 'n network \<times> 'n rng" where
  "fromJSON M json rs =
     NeuralNetwork M
       \<lparr> opt_layers = json_layers json,
         opt_activation =
           Some (case activationMap M (case json_activationName json of None \<Rightarrow> ''undefined'' | Some name \<Rightarrow> name) of
                   None \<Rightarrow> NumFn (sigmoid M)
                 | Some f \<Rightarrow> f),
         opt_activationName =
           Some (case json_activationName json of
                   None \<Rightarrow> ''sigmoid''
                 | Some name \<Rightarrow> if name = [] then ''sigmoid'' else name),
         opt_weights = json_weights json,
         opt_biases = json_biases json \<rparr> rs"

section \<open>Shapes\<close>

text \<open>The shape of a genome: one weight matrix and one bias vector per pair of
  consecutive layers, the matrix of layer \<open>i\<close> with \<open>layers ! (i + 1)\<close> rows of
  \<open>layers ! i\<close> weights, the vector with \<open>layers ! (i + 1)\<close> biases.\<close>

definition well_formed :: "'n network \<Rightarrow> bool" where
  "well_formed net \<longleftrightarrow>
     length (weights net) = length (layers net) - 1 \<and>
     length (biases net) = length (layers net) - 1 \<and>
     (\<forall>i \<in> set [0..<length (layers net) - 1].
        int (length (weights net ! i)) = layers net ! (i + 1) \<and>
        int (length (biases net ! i)) = layers net ! (i + 1) \<and>
        (\<forall>row \<in> set (weights net ! i). int (length row) = layers net ! i))"

text \<open>A topology is valid when it has at least two layers, every one with a neuron.\<close>

definition valid_topology :: "int list \<Rightarrow> bool" where
  "valid_topology ls \<longleftrightarrow> 2 \<le> length ls \<and> (\<forall>n \<in> set ls. 0 < n)"

text \<open>Every layer has a neuron, and the neurons of a layer have as many weights each.\<close>

definition rectangular :: "'n list list list \<Rightarrow> bool" where
  "rectangular ws \<longleftrightarrow> (\<forall>wl \<in> set ws. wl \<noteq> [] \<and> (\<forall>row \<in> set wl. length row = length (hd wl)))"

text \<open>Addition is associative: true of exact arithmetic, false of binary64.\<close>

definition associative :: "('n, 'm) arith_scheme \<Rightarrow> bool" where
  "associative A \<longleftrightarrow> (\<forall>a b c. fadd A (fadd A a b) c = fadd A a (fadd A b c))"

text \<open>The activation of a genome is the one \<^verbatim>\<open>fromJSON\<close> binds to its name.\<close>

definition bound_by_name :: "('n, 'm) jsmath_scheme \<Rightarrow> 'n network \<Rightarrow> bool" where
  "bound_by_name M net \<longleftrightarrow>
     activationName net \<noteq> [] \<and>
     activation net = (case activationMap M (activationName net) of None \<Rightarrow> NumFn (sigmoid M) | Some f \<Rightarrow> f)"

text \<open>The mean absolute difference as the specification words it: over all the
  weights and then all the biases of the two genomes, element by element, and 0 when
  there is no element.\<close>

definition parameters :: "'n network \<Rightarrow> 'n list" where
  "parameters net = concat (concat (weights net)) @ concat (biases net)"

definition mean_absolute_difference :: "('n, 'm) arith_scheme \<Rightarrow> 'n list \<Rightarrow> 'n list \<Rightarrow> 'n" where
  "mean_absolute_difference A xs ys =
     (if xs = [] then flit A 0
      else fdiv A (foldl (\<lambda>t (x, y). fadd A t (fabs A (fsub A x y))) (flit A 0) (zip xs ys))
             (flit A (of_nat (length xs))))"

section \<open>Example genomes\<close>

text \<open>One layer of one neuron with four inputs, in binary64: the bias is 1 and every
  weight is \<open>2\<^sup>-\<^sup>5\<^sup>3\<close>, half the distance from 1 to the next number.\<close>

definition tiny_weights :: "rat ext network" where
  "tiny_weights = \<lparr> layers = [4, 1], activation = NumFn (relu binary64), activationName = ''relu'',
     weights = [[[Fin (1 / 2 ^ 53), Fin (1 / 2 ^ 53), Fin (1 / 2 ^ 53), Fin (1 / 2 ^ 53)]]],
     biases = [[Fin 1]], layerOutputs = [], useOptimizedOperations = True \<rparr>"

text \<open>One layer of two neurons with five inputs, in exact arithmetic.\<close>

definition five_inputs :: "real ext network" where
  "five_inputs = \<lparr> layers = [5, 2], activation = NumFn (relu exact), activationName = ''relu'',
     weights = [[[Fin 1, Fin 2, Fin 3, Fin 4, Fin 5], [Fin 0, Fin 1, Fin 0, Fin 1, Fin 0]]],
     biases = [[Fin 0, Fin 1]], layerOutputs = [], useOptimizedOperations = True \<rparr>"

text \<open>One neuron with a weight below 0.01 and a weight above it.\<close>

definition one_small :: "real ext network" where
  "one_small = \<lparr> layers = [2, 1], activation = NumFn (sigmoid exact), activationName = ''sigmoid'',
     weights = [[[Fin (1 / 200), Fin (1 / 2)]]],
     biases = [[Fin 0]], layerOutputs = [], useOptimizedOperations = True \<rparr>"

text \<open>Another genome of the topology \<open>[2, 1]\<close>.\<close>

definition two_one :: "real ext network" where
  "two_one = \<lparr> layers = [2, 1], activation = NumFn (relu exact), activationName = ''relu'',
     weights = [[[Fin 3, Fin 4]]],
     biases = [[Fin 5]], layerOutputs = [], useOptimizedOperations = True \<rparr>"

text \<open>A genome built with the option \<^verbatim>\<open>activation\<close> and no \<^verbatim>\<open>activationName\<close>.\<close>

definition relu_unnamed :: "real ext network" where
  "relu_unnamed = fst (NeuralNetwork exact
     \<lparr> opt_layers = Some [1, 1], opt_activation = Some (NumFn (relu exact)),
       opt_activationName = None, opt_weights = Some [[[Fin 1]]], opt_biases = Some [[Fin 0]] \<rparr>
     (\<lambda>_. Fin (1 / 2)))"

text \<open>A serialized genome of the topology \<open>[1, 1]\<close> with a given activation name.\<close>

definition named_record :: "string \<Rightarrow> real ext json" where
  "named_record name = \<lparr> json_layers = Some [1, 1], json_activationName = Some name,
     json_weights = Some [[[Fin 1]]], json_biases = Some [[Fin 0]] \<rparr>"

text \<open>A genome of the topology \<open>[1, 1]\<close>, and one of the topology \<open>[2]\<close>.\<close>

definition narrow :: "real ext network" where
  "narrow = \<lparr> layers = [1, 1], activation = NumFn (relu exact), activationName = ''relu'',
     weights = [[[Fin 3]]],
     biases = [[Fin 5]], layerOutputs = [], useOptimizedOperations = True \<rparr>"

definition no_layers :: "real ext network" where
  "no_layers = \<lparr> layers = [2], activation = NumFn (relu exact), activationName = ''relu'',
     weights = [], biases = [], layerOutputs = [], useOptimizedOperations = True \<rparr>"

section \<open>The two paths of the forward evaluation\<close>

lemma upt_four: "k + 3 < n \<Longrightarrow> [k..<n] = k # (k + 1) # (k + 2) # (k + 3) # [k + 4..<n]"
  by (simp add: upt_conv_Cons eval_nat_numeral)

lemma unrolled_sum_past: "prevLayerSize \<le> k \<Longrightarrow> unrolled_sum A outputs ws prevLayerSize k sm = sm"
  by (simp add: unrolled_sum.simps)

text \<open>With an associative addition, the blocks of four add up to the sum taken one
  product at a time.\<close>

lemma unrolled_sum_associative:
  "associative A \<Longrightarrow> unrolled_sum A outputs ws n k sm = remainder_sum A outputs ws n k sm"
proof (induction A outputs ws n k sm rule: unrolled_sum.induct)
  case (1 A outputs ws n k sm)
  have assoc: "\<And>a b c. fadd A (fadd A a b) c = fadd A a (fadd A b c)"
    using 1(3) by (simp add: associative_def)
  show ?case
  proof (cases "k < n")
    case False
    then show ?thesis
      by (simp add: unrolled_sum_past remainder_sum_def)
  next
    case True
    show ?thesis
    proof (cases "k + 3 < n")
      case True
      then have "k < n" by simp
      let ?p = "\<lambda>m. fmul A (num_at A outputs m) (num_at A ws m)"
      let ?s = "fadd A sm (fadd A (fadd A (fadd A (?p k) (?p (k + 1))) (?p (k + 2))) (?p (k + 3)))"
      have "unrolled_sum A outputs ws n k sm = unrolled_sum A outputs ws n (k + 4) ?s"
        using True \<open>k < n\<close> by (subst unrolled_sum.simps) simp
      also have "\<dots> = remainder_sum A outputs ws n (k + 4) ?s"
        using 1(1) [OF \<open>k < n\<close> True 1(3)] .
      also have "\<dots> = remainder_sum A outputs ws n k sm"
        unfolding remainder_sum_def upt_four [OF True] by (simp add: assoc)
      finally show ?thesis .
    next
      case False
      with True show ?thesis
        by (simp add: unrolled_sum.simps [of A outputs ws n k] unrolled_sum_past)
    qed
  qed
qed

text \<open>Fewer than four inputs: no block is full, whatever the addition.\<close>

lemma unrolled_sum_narrow:
  assumes "n < 4"
  shows "unrolled_sum A outputs ws n 0 sm = remainder_sum A outputs ws n 0 sm"
proof (cases "0 < n")
  case True
  with assms show ?thesis
    by (simp add: unrolled_sum.simps [of A outputs ws n 0] unrolled_sum_past)
next
  case False
  then show ?thesis
    by (simp add: unrolled_sum_past remainder_sum_def)
qed

lemma remainder_sum_weighted:
  "remainder_sum A outputs ws (length ws) 0 sm = weighted_sum A outputs ws sm"
  unfolding remainder_sum_def weighted_sum_def
  by (rule foldl_cong) (simp_all add: num_at_def)

lemma each_neuron_cong:
  "(\<And>j. j \<in> set js \<Longrightarrow> f j = g j) \<Longrightarrow> each_neuron f js = each_neuron g js"
  by (induction js) (simp_all split: sum.splits)

lemma propagate_cong:
  "(\<And>wl outputs i. wl \<in> set wls \<Longrightarrow> f outputs wl i = g outputs wl i)
     \<Longrightarrow> propagate f i outputs wls = propagate g i outputs wls"
  by (induction wls arbitrary: i outputs) (simp_all split: sum.splits)

lemma optimized_layer_plain:
  assumes "\<forall>row \<in> set (w0 # rest). length row = length w0"
    and "associative A \<or> length w0 < 4"
  shows "optimized_layer A net outputs (w0 # rest) i = plain_layer A net outputs (w0 # rest) i"
  unfolding optimized_layer_def plain_layer_def list.case Let_def
proof (rule each_neuron_cong)
  fix j
  assume "j \<in> set [0..<length (w0 # rest)]"
  then have "j < length (w0 # rest)"
    by (simp only: set_upt atLeastLessThan_iff)
  then have len: "length ((w0 # rest) ! j) = length w0"
    using assms(1) nth_mem by blast
  have "unrolled_sum A outputs ((w0 # rest) ! j) (length w0) 0 sm
          = remainder_sum A outputs ((w0 # rest) ! j) (length w0) 0 sm" for sm
    using assms(2) by (auto simp: unrolled_sum_associative unrolled_sum_narrow)
  then have row: "unrolled_sum A outputs ((w0 # rest) ! j) (length w0) 0 sm
          = weighted_sum A outputs ((w0 # rest) ! j) sm" for sm
    using remainder_sum_weighted [of A outputs "(w0 # rest) ! j" sm] len by simp
  show "(case arr_at (biases net) i of None \<Rightarrow> Inl TypeError
       | Some bl \<Rightarrow> call_activation (activation net)
           (unrolled_sum A outputs ((w0 # rest) ! j) (length w0) 0 (num_at A bl j))) =
      (case arr_at (biases net) i of None \<Rightarrow> Inl TypeError
       | Some bl \<Rightarrow> call_activation (activation net)
           (weighted_sum A outputs ((w0 # rest) ! j) (num_at A bl j)))"
    by (simp only: row)
qed

lemma fadd_exact: "fadd exact = lift2 (+)"
  by (simp add: exact_def)

lemma associative_exact: "associative exact"
  unfolding associative_def fadd_exact
proof (intro allI)
  fix a b c :: "real ext"
  show "lift2 (+) (lift2 (+) a b) c = lift2 (+) a (lift2 (+) b c)"
    by (cases a; cases b; cases c) simp_all
qed

text \<open>
  C1. The claim is that \<^verbatim>\<open>feedForwardOptimized\<close> and the accumulation of
  \<^verbatim>\<open>feedForward\<close> without unrolling return the same vector on every genome and
  input. What holds: on a genome whose layers each have a neuron and whose neurons have as
  many weights each, the two calls end the same way (the same outputs and the same cache)
  when the addition is associative, as in exact arithmetic, or when no neuron has four
  weights or more, whatever the addition; and so does \<^verbatim>\<open>feedForward\<close> itself, whichever
  path its flag selects.
\<close>

theorem feedForwardOptimized_plain:
  assumes "rectangular (weights net)"
    and "associative A \<or> (\<forall>wl \<in> set (weights net). length (hd wl) < 4)"
  shows "feedForwardOptimized A net inputs = feedForward_plain A net inputs \<and>
         feedForward A net inputs = feedForward_plain A net inputs"
proof -
  have rect: "\<forall>wl \<in> set (weights net). wl \<noteq> [] \<and> (\<forall>row \<in> set wl. length row = length (hd wl))"
    using assms(1) unfolding rectangular_def .
  have layer: "optimized_layer A net outputs wl i = plain_layer A net outputs wl i"
    if mem: "wl \<in> set (weights net)" for wl outputs i
  proof (cases wl)
    case Nil
    with rect mem show ?thesis by blast
  next
    case (Cons w0 rest)
    from rect mem have "\<forall>row \<in> set wl. length row = length (hd wl)"
      by blast
    then have rows: "\<forall>row \<in> set (w0 # rest). length row = length w0"
      unfolding Cons by simp
    from assms(2) mem have "associative A \<or> length (hd wl) < 4"
      by blast
    then have "associative A \<or> length w0 < 4"
      unfolding Cons by simp
    with rows show ?thesis
      unfolding Cons by (rule optimized_layer_plain)
  qed
  have "propagate (optimized_layer A net) 0 inputs (weights net)
          = propagate (plain_layer A net) 0 inputs (weights net)"
    by (rule propagate_cong) (rule layer)
  then have "feedForwardOptimized A net inputs = feedForward_plain A net inputs"
    unfolding feedForwardOptimized_def feedForward_plain_def by (simp only:)
  then show ?thesis
    by (simp add: feedForward_def)
qed

text \<open>The theorem at a genome with five inputs, a full block and a remainder, in exact
  arithmetic.\<close>

theorem feedForwardOptimized_plain_witness:
  "rectangular (weights five_inputs) \<and> associative exact \<and>
   feedForwardOptimized exact five_inputs [Fin 1, Fin 1, Fin 1, Fin 1, Fin 1]
     = feedForward_plain exact five_inputs [Fin 1, Fin 1, Fin 1, Fin 1, Fin 1] \<and>
   feedForward exact five_inputs [Fin 1, Fin 1, Fin 1, Fin 1, Fin 1]
     = feedForward_plain exact five_inputs [Fin 1, Fin 1, Fin 1, Fin 1, Fin 1]"
proof -
  have r: "rectangular (weights five_inputs)"
    by (simp add: rectangular_def five_inputs_def)
  show ?thesis
    using feedForwardOptimized_plain [of five_inputs exact "[Fin 1, Fin 1, Fin 1, Fin 1, Fin 1]"]
      r associative_exact by simp
qed

text \<open>The roundings of the example: \<open>2\<^sup>-\<^sup>5\<^sup>3\<close>, \<open>2\<^sup>-\<^sup>5\<^sup>2\<close>, \<open>3 \<sqdot> 2\<^sup>-\<^sup>5\<^sup>3\<close>,
  \<open>2\<^sup>-\<^sup>5\<^sup>1\<close> and \<open>1 + 2\<^sup>-\<^sup>5\<^sup>1\<close> are binary64 numbers; \<open>1 + 2\<^sup>-\<^sup>5\<^sup>3\<close> lies
  halfway between 1 and the next one, and rounds to the even one, 1.\<close>

lemma round53_values:
  "round53 0 = 0"
  "round53 (1 / 9007199254740992) = 1 / 9007199254740992"
  "round53 (1 / 4503599627370496) = 1 / 4503599627370496"
  "round53 (3 / 9007199254740992) = 3 / 9007199254740992"
  "round53 (1 / 2251799813685248) = 1 / 2251799813685248"
  "round53 (9007199254740993 / 9007199254740992) = 1"
  "round53 (2251799813685249 / 2251799813685248) = 2251799813685249 / 2251799813685248"
  by code_simp+

text \<open>In binary64 the two paths differ: one product at a time, each \<open>1 + 2\<^sup>-\<^sup>5\<^sup>3\<close>
  is a tie that rounds back to 1; the block adds the four products to \<open>2\<^sup>-\<^sup>5\<^sup>1\<close>
  first, and \<open>1 + 2\<^sup>-\<^sup>5\<^sup>1\<close> is a binary64 number.\<close>

theorem feedForwardOptimized_plain_counterexample:
  "map_sum id fst (feedForward_plain binary64 tiny_weights [Fin 1, Fin 1, Fin 1, Fin 1]) = Inr [Fin 1] \<and>
   map_sum id fst (feedForwardOptimized binary64 tiny_weights [Fin 1, Fin 1, Fin 1, Fin 1])
     = Inr [Fin (1 + 1 / 2 ^ 51)]"
  by (simp add: feedForward_plain_def feedForwardOptimized_def plain_layer_def optimized_layer_def
      tiny_weights_def arr_at_def num_at_def call_activation_def unrolled_sum.simps remainder_sum_def
      weighted_sum_def relu_def binary64_def round53_values upt_conv_Cons)

section \<open>Activations\<close>

lemma one_plus_exp_nonzero: "1 + exp (y::real) \<noteq> 0"
  using exp_gt_zero [of y] by linarith

lemma exp_plus_one_nonzero: "exp (y::real) + 1 \<noteq> 0"
  using exp_gt_zero [of y] by linarith

text \<open>
  C7. In exact arithmetic, for every real \<open>x\<close>: \<^verbatim>\<open>sigmoid\<close> is 0 below -15, 1 above 15
  and \<open>1 / (1 + e\<^sup>-\<^sup>x)\<close> between; \<^verbatim>\<open>tanh\<close> is 1 above 10, -1 below -10 and
  \<open>(e\<^sup>2\<^sup>x - 1) / (e\<^sup>2\<^sup>x + 1)\<close> between; \<^verbatim>\<open>relu\<close> is \<open>max 0 x\<close>;
  \<^verbatim>\<open>leakyRelu\<close> is \<open>x\<close> for positive \<open>x\<close> and \<open>alpha * x\<close> otherwise, with
  \<open>alpha = 0.01\<close> when the call gives none.
\<close>

theorem activations_exact:
  "sigmoid exact (Fin x) =
     (if x < -15 then Fin 0 else if x > 15 then Fin 1 else Fin (1 / (1 + exp (- x)))) \<and>
   tanh_js exact (Fin x) =
     (if x > 10 then Fin 1 else if x < -10 then Fin (-1)
      else Fin ((exp (2 * x) - 1) / (exp (2 * x) + 1))) \<and>
   relu exact (Fin x) = Fin (max 0 x) \<and>
   leakyRelu exact (Fin x) None = (if x > 0 then Fin x else Fin (0.01 * x)) \<and>
   leakyRelu exact (Fin x) (Some (Fin alpha)) = (if x > 0 then Fin x else Fin (alpha * x))"
proof (intro conjI)
  show "sigmoid exact (Fin x) =
     (if x < -15 then Fin 0 else if x > 15 then Fin 1 else Fin (1 / (1 + exp (- x))))"
    by (simp add: sigmoid_def exact_def one_plus_exp_nonzero)
  show "tanh_js exact (Fin x) =
     (if x > 10 then Fin 1 else if x < -10 then Fin (-1)
      else Fin ((exp (2 * x) - 1) / (exp (2 * x) + 1)))"
    by (simp add: tanh_js_def exact_def exp_plus_one_nonzero Let_def)
  show "relu exact (Fin x) = Fin (max 0 x)"
    by (simp add: relu_def exact_def)
  show "leakyRelu exact (Fin x) None = (if x > 0 then Fin x else Fin (0.01 * x))"
    by (simp add: leakyRelu_def exact_def of_rat_divide)
  show "leakyRelu exact (Fin x) (Some (Fin alpha)) = (if x > 0 then Fin x else Fin (alpha * x))"
    by (simp add: leakyRelu_def exact_def)
qed

section \<open>Mutation\<close>

lemma map_state_keep:
  assumes "\<And>x s. P s \<Longrightarrow> fst (f x s) = x \<and> P (snd (f x s))" and "P s"
  shows "fst (map_state f xs s) = xs \<and> P (snd (map_state f xs s))"
  using assms(2)
proof (induction xs arbitrary: s)
  case Nil
  then show ?case by simp
next
  case (Cons x xs)
  from assms(1) [OF Cons.prems, of x] have f: "fst (f x s) = x" and P: "P (snd (f x s))"
    by simp_all
  from Cons.IH [OF P] f show ?case
    by (auto split: prod.splits)
qed

lemma mutate_value_keep:
  assumes "\<forall>i. \<not> flt A (rs i) rate"
  shows "fst (mutate_value A rate amount v rs) = v \<and> (\<forall>i. \<not> flt A (snd (mutate_value A rate amount v rs) i) rate)"
  using assms by (simp add: mutate_value_def advance_def)

text \<open>
  C9. \<^verbatim>\<open>mutate\<close> with rate 0 leaves the genome as it is, every weight and every
  bias, whatever the amount and whatever the draws, none of which is below 0.
\<close>

theorem mutate_rate_zero:
  assumes "\<forall>i. \<not> flt A (rs i) (flit A 0)"
  shows "fst (mutate A net (Some (flit A 0)) amount rs) = net"
proof -
  let ?P = "\<lambda>rs :: 'a rng. \<forall>i. \<not> flt A (rs i) (flit A 0)"
  let ?a = "case amount of None \<Rightarrow> flit A (1 / 2) | Some a \<Rightarrow> a"
  let ?f = "mutate_value A (flit A 0) ?a"
  have one: "fst (?f v s) = v \<and> ?P (snd (?f v s))" if "?P s" for v s
    using that by (rule mutate_value_keep)
  have two: "fst (map_state ?f row s) = row \<and> ?P (snd (map_state ?f row s))" if "?P s" for row s
    by (rule map_state_keep [where P = ?P and f = ?f, OF one that])
  have three: "fst (map_state (map_state ?f) wl s) = wl \<and> ?P (snd (map_state (map_state ?f) wl s))"
    if "?P s" for wl s
    by (rule map_state_keep [where P = ?P and f = "map_state ?f", OF two that])
  have four: "fst (map_state (map_state (map_state ?f)) ws s) = ws \<and>
      ?P (snd (map_state (map_state (map_state ?f)) ws s))" if "?P s" for ws s
    by (rule map_state_keep [where P = ?P and f = "map_state (map_state ?f)", OF three that])
  obtain ws rs1 where w: "map_state (map_state (map_state ?f)) (weights net) rs = (ws, rs1)"
    by (cases "map_state (map_state (map_state ?f)) (weights net) rs")
  obtain bs rs2 where b: "map_state (map_state ?f) (biases net) rs1 = (bs, rs2)"
    by (cases "map_state (map_state ?f) (biases net) rs1")
  from four [OF assms, of "weights net"] w have ws: "ws = weights net" and P1: "?P rs1"
    by simp_all
  from three [OF P1, of "biases net"] b have bs: "bs = biases net"
    by simp
  show ?thesis
    by (simp add: mutate_def w b ws bs)
qed

text \<open>The theorem at the genome with five inputs, every draw being 1/2.\<close>

theorem mutate_rate_zero_witness:
  "(\<forall>i. \<not> flt exact ((\<lambda>_. Fin (1 / 2)) i) (flit exact 0)) \<and>
   fst (mutate exact five_inputs (Some (flit exact 0)) (Some (Fin 1)) (\<lambda>_. Fin (1 / 2))) = five_inputs"
proof -
  have h: "\<forall>i. \<not> flt exact ((\<lambda>_. Fin (1 / 2)) i) (flit exact 0)"
    by (simp add: exact_def)
  from mutate_rate_zero [OF h] h show ?thesis
    by blast
qed

section \<open>Pruning\<close>

lemma map_state_count:
  fixes h :: "'a \<Rightarrow> nat"
  assumes "\<And>x c. f x c = (g x, c + h x)"
  shows "map_state f xs c = (map g xs, c + sum_list (map h xs))"
  by (induction xs arbitrary: c) (simp_all add: assms)


lemma sum_list_indicator: "sum_list (map (\<lambda>x. if P x then 1 else 0) xs) = length (filter P xs)"
  by (induction xs) simp_all

lemma prune_row:
  "map_state (prune_value A t) row c =
     (map (\<lambda>w. if flt A (fabs A w) t then flit A 0 else w) row,
      c + length (filter (\<lambda>w. flt A (fabs A w) t) row))"
proof -
  have "map_state (prune_value A t) row c =
     (map (\<lambda>w. if flt A (fabs A w) t then flit A 0 else w) row,
      c + sum_list (map (\<lambda>w. if flt A (fabs A w) t then 1 else 0) row))"
    by (rule map_state_count) (simp add: prune_value_def)
  then show ?thesis
    by (simp only: sum_list_indicator)
qed

lemma prune_layer:
  "map_state (map_state (prune_value A t)) wl c =
     (map (map (\<lambda>w. if flt A (fabs A w) t then flit A 0 else w)) wl,
      c + (\<Sum>row\<leftarrow>wl. length (filter (\<lambda>w. flt A (fabs A w) t) row)))"
  by (rule map_state_count) (rule prune_row)

lemma prune_layers:
  "map_state (map_state (map_state (prune_value A t))) ws c =
     (map (map (map (\<lambda>w. if flt A (fabs A w) t then flit A 0 else w))) ws,
      c + (\<Sum>wl\<leftarrow>ws. \<Sum>row\<leftarrow>wl. length (filter (\<lambda>w. flt A (fabs A w) t) row)))"
  by (rule map_state_count) (rule prune_layer)

lemma prune_eq:
  "prune A net (Some t) =
     ((\<Sum>wl\<leftarrow>weights net. \<Sum>row\<leftarrow>wl. length (filter (\<lambda>w. flt A (fabs A w) t) row)),
      net\<lparr>weights := map (map (map (\<lambda>w. if flt A (fabs A w) t then flit A 0 else w))) (weights net)\<rparr>)"
  by (simp add: prune_def prune_layers)

lemma filter_pruned:
  "length (filter (\<lambda>w. flt A (fabs A w) t) (map (\<lambda>w. if flt A (fabs A w) t then flit A 0 else w) row))
     = (if flt A (fabs A (flit A 0)) t then length (filter (\<lambda>w. flt A (fabs A w) t) row) else 0)"
proof -
  have "(\<lambda>w. flt A (fabs A (if flt A (fabs A w) t then flit A 0 else w)) t)
          = (\<lambda>w. flt A (fabs A (flit A 0)) t \<and> flt A (fabs A w) t)"
    by (rule ext) simp
  then show ?thesis
    by (simp add: filter_map comp_def)
qed

lemma sum_list_if_const:
  "(\<Sum>x\<leftarrow>xs. if c then f x else (0::nat)) = (if c then (\<Sum>x\<leftarrow>xs. f x) else 0)"
  by (induction xs) simp_all

text \<open>
  C8. The claim is that \<^verbatim>\<open>prune\<close> zeroes exactly the weights of absolute value below
  the threshold, leaves the biases, returns the number of weights it zeroed, and returns 0
  when repeated at once. What holds: the first three, and a repeated \<^verbatim>\<open>prune\<close> changes
  nothing more; it returns 0 when 0 is not below the threshold (\<open>t = 0\<close>), and the
  same count again when it is (\<open>t > 0\<close>): the weights already zeroed pass the test
  \<^verbatim>\<open>Math.abs(w) < threshold\<close> and are counted again.
\<close>

theorem prune_effect:
  "weights (snd (prune A net (Some t)))
     = map (map (map (\<lambda>w. if flt A (fabs A w) t then flit A 0 else w))) (weights net) \<and>
   biases (snd (prune A net (Some t))) = biases net \<and>
   fst (prune A net (Some t))
     = (\<Sum>wl\<leftarrow>weights net. \<Sum>row\<leftarrow>wl. length (filter (\<lambda>w. flt A (fabs A w) t) row)) \<and>
   snd (prune A (snd (prune A net (Some t))) (Some t)) = snd (prune A net (Some t)) \<and>
   fst (prune A (snd (prune A net (Some t))) (Some t))
     = (if flt A (fabs A (flit A 0)) t then fst (prune A net (Some t)) else 0)"
proof (intro conjI)
  show "weights (snd (prune A net (Some t)))
     = map (map (map (\<lambda>w. if flt A (fabs A w) t then flit A 0 else w))) (weights net)"
    by (simp add: prune_eq)
  show "biases (snd (prune A net (Some t))) = biases net"
    by (simp add: prune_eq)
  show "fst (prune A net (Some t))
     = (\<Sum>wl\<leftarrow>weights net. \<Sum>row\<leftarrow>wl. length (filter (\<lambda>w. flt A (fabs A w) t) row))"
    by (simp add: prune_eq)
  show "snd (prune A (snd (prune A net (Some t))) (Some t)) = snd (prune A net (Some t))"
    by (simp add: prune_eq comp_def)
  show "fst (prune A (snd (prune A net (Some t))) (Some t))
     = (if flt A (fabs A (flit A 0)) t then fst (prune A net (Some t)) else 0)"
    by (simp add: prune_eq comp_def filter_pruned sum_list_if_const)
qed

text \<open>With the threshold 0.01 the weight 0.005 is zeroed and counted, and counted again
  by the second call.\<close>

theorem prune_twice_counterexample:
  "fst (prune exact one_small (Some (Fin (1 / 100)))) = 1 \<and>
   weights (snd (prune exact one_small (Some (Fin (1 / 100))))) = [[[Fin 0, Fin (1 / 2)]]] \<and>
   fst (prune exact (snd (prune exact one_small (Some (Fin (1 / 100))))) (Some (Fin (1 / 100)))) = 1"
  by (simp add: prune_def prune_value_def one_small_def exact_def)

section \<open>Crossover\<close>

lemma for_each_build:
  assumes "\<And>i s. i \<in> set js \<Longrightarrow> P s \<Longrightarrow> \<exists>s'. body i s = Inr (g i, s') \<and> P s'" and "P s"
  shows "\<exists>s'. for_each body js s = Inr (map g js, s') \<and> P s'"
  using assms
proof (induction js arbitrary: s)
  case Nil
  then show ?case by simp
next
  case (Cons j js)
  from Cons.prems(1) [of j s] Cons.prems(2) obtain s1 where b: "body j s = Inr (g j, s1)" and P1: "P s1"
    by auto
  have "\<exists>s'. for_each body js s1 = Inr (map g js, s') \<and> P s'"
    by (rule Cons.IH) (use Cons.prems(1) P1 in auto)
  then obtain s2 where r: "for_each body js s1 = Inr (map g js, s2)" and P2: "P s2"
    by auto
  show ?case
    by (simp add: b r P2)
qed

lemma map_nth_same: "length xs = length ys \<Longrightarrow> map (\<lambda>k. ys ! k) [0..<length xs] = ys"
  by (simp add: map_nth)

text \<open>A crossover that takes, at every position of \<open>ws\<close>, the element of \<open>ts\<close>.\<close>

lemma cross_weights_build:
  assumes len: "length ts = length ws"
    and rows: "\<And>i. i < length ws \<Longrightarrow> length (ts ! i) = length (ws ! i)"
    and cols: "\<And>i j. i < length ws \<Longrightarrow> j < length (ws ! i) \<Longrightarrow> length (ts ! i ! j) = length (ws ! i ! j)"
    and pick: "\<And>i j k s. i < length ws \<Longrightarrow> j < length (ws ! i) \<Longrightarrow> k < length (ws ! i ! j) \<Longrightarrow> P s
       \<Longrightarrow> \<exists>s'. pick_gene A rate (ws ! i ! j ! k) (weight_at A ows i j k) s = Inr (ts ! i ! j ! k, s') \<and> P s'"
    and "P s"
  shows "\<exists>s'. cross_weights A rate ws ows s = Inr (ts, s') \<and> P s'"
proof -
  have k: "\<exists>s'. for_each (\<lambda>k. pick_gene A rate (ws ! i ! j ! k) (weight_at A ows i j k))
             [0..<length (ws ! i ! j)] s = Inr (ts ! i ! j, s') \<and> P s'"
    if "i < length ws" "j < length (ws ! i)" "P s" for i j s
  proof -
    have "\<exists>s'. for_each (\<lambda>k. pick_gene A rate (ws ! i ! j ! k) (weight_at A ows i j k))
             [0..<length (ws ! i ! j)] s = Inr (map (\<lambda>k. ts ! i ! j ! k) [0..<length (ws ! i ! j)], s') \<and> P s'"
      by (rule for_each_build [where P = P]) (use pick that in auto)
    then show ?thesis
      using cols [OF that(1,2)] by (simp add: map_nth_same)
  qed
  have j: "\<exists>s'. for_each (\<lambda>j. for_each (\<lambda>k. pick_gene A rate (ws ! i ! j ! k) (weight_at A ows i j k))
             [0..<length (ws ! i ! j)]) [0..<length (ws ! i)] s = Inr (ts ! i, s') \<and> P s'"
    if "i < length ws" "P s" for i s
  proof -
    have "\<exists>s'. for_each (\<lambda>j. for_each (\<lambda>k. pick_gene A rate (ws ! i ! j ! k) (weight_at A ows i j k))
             [0..<length (ws ! i ! j)]) [0..<length (ws ! i)] s
            = Inr (map (\<lambda>j. ts ! i ! j) [0..<length (ws ! i)], s') \<and> P s'"
      by (rule for_each_build [where P = P]) (use k that in auto)
    then show ?thesis
      using rows [OF that(1)] by (simp add: map_nth_same)
  qed
  have "\<exists>s'. cross_weights A rate ws ows s = Inr (map (\<lambda>i. ts ! i) [0..<length ws], s') \<and> P s'"
    unfolding cross_weights_def
    by (rule for_each_build [where P = P]) (use j \<open>P s\<close> in auto)
  then show ?thesis
    using len by (simp add: map_nth_same)
qed

lemma cross_biases_build:
  assumes len: "length ts = length bs"
    and rows: "\<And>i. i < length bs \<Longrightarrow> length (ts ! i) = length (bs ! i)"
    and pick: "\<And>i j s. i < length bs \<Longrightarrow> j < length (bs ! i) \<Longrightarrow> P s
       \<Longrightarrow> \<exists>s'. pick_gene A rate (bs ! i ! j) (bias_at A obs i j) s = Inr (ts ! i ! j, s') \<and> P s'"
    and "P s"
  shows "\<exists>s'. cross_biases A rate bs obs s = Inr (ts, s') \<and> P s'"
proof -
  have j: "\<exists>s'. for_each (\<lambda>j. pick_gene A rate (bs ! i ! j) (bias_at A obs i j))
             [0..<length (bs ! i)] s = Inr (ts ! i, s') \<and> P s'"
    if "i < length bs" "P s" for i s
  proof -
    have "\<exists>s'. for_each (\<lambda>j. pick_gene A rate (bs ! i ! j) (bias_at A obs i j))
             [0..<length (bs ! i)] s = Inr (map (\<lambda>j. ts ! i ! j) [0..<length (bs ! i)], s') \<and> P s'"
      by (rule for_each_build [where P = P]) (use pick that in auto)
    then show ?thesis
      using rows [OF that(1)] by (simp add: map_nth_same)
  qed
  have "\<exists>s'. cross_biases A rate bs obs s = Inr (map (\<lambda>i. ts ! i) [0..<length bs], s') \<and> P s'"
    unfolding cross_biases_def
    by (rule for_each_build [where P = P]) (use j \<open>P s\<close> in auto)
  then show ?thesis
    using len by (simp add: map_nth_same)
qed

lemma well_formed_same_shape:
  assumes "layers a = layers b" and "well_formed a" and "well_formed b"
  shows "length (weights b) = length (weights a)"
    and "length (biases b) = length (biases a)"
    and "i < length (weights a) \<Longrightarrow> length (weights b ! i) = length (weights a ! i)"
    and "i < length (biases a) \<Longrightarrow> length (biases b ! i) = length (biases a ! i)"
    and "i < length (weights a) \<Longrightarrow> j < length (weights a ! i)
           \<Longrightarrow> length (weights b ! i ! j) = length (weights a ! i ! j)"
proof -
  show la: "length (weights b) = length (weights a)" and lb: "length (biases b) = length (biases a)"
    using assms by (simp_all add: well_formed_def)
  have wa: "length (weights a) = length (layers a) - 1" and ba: "length (biases a) = length (layers a) - 1"
    using assms(2) by (simp_all add: well_formed_def)
  have A: "int (length (weights a ! i)) = layers a ! (i + 1) \<and>
        int (length (biases a ! i)) = layers a ! (i + 1) \<and>
        (\<forall>row \<in> set (weights a ! i). int (length row) = layers a ! i)" if "i < length (layers a) - 1" for i
    using assms(2) that by (simp add: well_formed_def)
  have B: "int (length (weights b ! i)) = layers a ! (i + 1) \<and>
        int (length (biases b ! i)) = layers a ! (i + 1) \<and>
        (\<forall>row \<in> set (weights b ! i). int (length row) = layers a ! i)" if "i < length (layers a) - 1" for i
    using assms(1,3) that by (simp add: well_formed_def)
  show rows: "i < length (weights a) \<Longrightarrow> length (weights b ! i) = length (weights a ! i)"
    using A [of i] B [of i] wa by simp
  show "i < length (biases a) \<Longrightarrow> length (biases b ! i) = length (biases a ! i)"
    using A [of i] B [of i] ba by simp
  show "i < length (weights a) \<Longrightarrow> j < length (weights a ! i)
           \<Longrightarrow> length (weights b ! i ! j) = length (weights a ! i ! j)"
  proof -
    assume i: "i < length (weights a)" and j: "j < length (weights a ! i)"
    from j rows [OF i] have jb: "j < length (weights b ! i)" by simp
    from A [of i] i wa j have "int (length (weights a ! i ! j)) = layers a ! i"
      by (simp add: nth_mem)
    moreover from B [of i] i wa jb have "int (length (weights b ! i ! j)) = layers a ! i"
      by (simp add: nth_mem)
    ultimately show ?thesis by simp
  qed
qed

lemma crossover_build:
  assumes "layers a = layers b"
    and w: "\<exists>s'. cross_weights M rate (weights a) (weights b) rs = Inr (tw, s') \<and> P s'"
    and b: "\<And>s. P s \<Longrightarrow> \<exists>s'. cross_biases M rate (biases a) (biases b) s = Inr (tb, s') \<and> P s'"
  shows "\<exists>child rs'. crossover M a b (Some rate) rs = Inr (child, rs') \<and>
           weights child = tw \<and> biases child = tb"
proof -
  from w obtain s1 where w1: "cross_weights M rate (weights a) (weights b) rs = Inr (tw, s1)" and "P s1"
    by auto
  from b [OF \<open>P s1\<close>] obtain s2 where b1: "cross_biases M rate (biases a) (biases b) s1 = Inr (tb, s2)"
    by auto
  show ?thesis
    by (simp add: crossover_def assms(1) w1 b1 list_ex_iff NeuralNetwork_def)
qed


lemma advance_below: "\<forall>i. flt A (rs i) rate \<Longrightarrow> \<forall>i. flt A (advance rs i) rate"
  by (simp add: advance_def)

lemma advance_not_below: "\<forall>i. \<not> flt A (rs i) rate \<Longrightarrow> \<forall>i. \<not> flt A (advance rs i) rate"
  by (simp add: advance_def)

lemma crossover_rate_one:
  assumes "layers a = layers b" and "\<forall>i. flt M (rs i) rate"
  shows "\<exists>child rs'. crossover M a b (Some rate) rs = Inr (child, rs') \<and>
           weights child = weights a \<and> biases child = biases a"
proof (rule crossover_build [where P = "\<lambda>s. \<forall>i. flt M (s i) rate"])
  show "layers a = layers b" by fact
  show "\<exists>s'. cross_weights M rate (weights a) (weights b) rs = Inr (weights a, s') \<and> (\<forall>i. flt M (s' i) rate)"
    by (rule cross_weights_build [where P = "\<lambda>s. \<forall>i. flt M (s i) rate"])
       (simp_all add: assms(2) pick_gene_def advance_def)
  show "\<exists>s'. cross_biases M rate (biases a) (biases b) s = Inr (biases a, s') \<and> (\<forall>i. flt M (s' i) rate)"
    if "\<forall>i. flt M (s i) rate" for s
    by (rule cross_biases_build [where P = "\<lambda>s. \<forall>i. flt M (s i) rate"])
       (simp_all add: that pick_gene_def advance_def)
qed

lemma crossover_rate_zero:
  fixes a :: "'a network"
  assumes "layers a = layers b" and "well_formed a" and "well_formed b"
    and "\<forall>i. \<not> flt M (rs i) rate"
  shows "\<exists>child rs'. crossover M a b (Some rate) rs = Inr (child, rs') \<and>
           weights child = weights b \<and> biases child = biases b"
proof (rule crossover_build [where P = "\<lambda>s. \<forall>i. \<not> flt M (s i) rate"])
  note shape = well_formed_same_shape [OF assms(1-3)]
  show "layers a = layers b" by fact
  show "\<exists>s'. cross_weights M rate (weights a) (weights b) rs = Inr (weights b, s') \<and> (\<forall>i. \<not> flt M (s' i) rate)"
  proof (rule cross_weights_build [where P = "\<lambda>s. \<forall>i. \<not> flt M (s i) rate"])
    fix i j k and s :: "nat \<Rightarrow> 'a"
    assume "i < length (weights a)" "j < length (weights a ! i)" "k < length (weights a ! i ! j)"
      and "\<forall>i. \<not> flt M (s i) rate"
    then show "\<exists>s'. pick_gene M rate (weights a ! i ! j ! k) (weight_at M (weights b) i j k) s
                  = Inr (weights b ! i ! j ! k, s') \<and> (\<forall>i. \<not> flt M (s' i) rate)"
      using shape(1) shape(3) [of i] shape(5) [of i j]
      by (simp add: pick_gene_def weight_at_def arr_at_def num_at_def advance_def)
  qed (simp_all add: shape assms(4))
  show "\<exists>s'. cross_biases M rate (biases a) (biases b) s = Inr (biases b, s') \<and> (\<forall>i. \<not> flt M (s' i) rate)"
    if "\<forall>i. \<not> flt M (s i) rate" for s
  proof (rule cross_biases_build [where P = "\<lambda>s. \<forall>i. \<not> flt M (s i) rate"])
    fix i j and s :: "nat \<Rightarrow> 'a"
    assume "i < length (biases a)" "j < length (biases a ! i)" and "\<forall>i. \<not> flt M (s i) rate"
    then show "\<exists>s'. pick_gene M rate (biases a ! i ! j) (bias_at M (biases b) i j) s
                  = Inr (biases b ! i ! j, s') \<and> (\<forall>i. \<not> flt M (s' i) rate)"
      using shape(2) shape(4) [of i]
      by (simp add: pick_gene_def bias_at_def arr_at_def num_at_def advance_def)
  qed (simp_all add: shape that)
qed

text \<open>
  C6. For two genomes of the same topology, each with the shape its topology gives, and
  draws in \<open>[0, 1)\<close>: \<^verbatim>\<open>crossover\<close> with rate 1 returns a child with the weights and
  biases of the first parent, and with rate 0 a child with those of the second.
\<close>

theorem crossover_extremes:
  assumes "layers a = layers b" and "well_formed a" and "well_formed b"
    and "\<forall>i. \<not> flt M (rs i) (flit M 0) \<and> flt M (rs i) (flit M 1)"
  shows "(\<exists>child rs'. crossover M a b (Some (flit M 1)) rs = Inr (child, rs') \<and>
            weights child = weights a \<and> biases child = biases a) \<and>
         (\<exists>child rs'. crossover M a b (Some (flit M 0)) rs = Inr (child, rs') \<and>
            weights child = weights b \<and> biases child = biases b)"
proof
  show "\<exists>child rs'. crossover M a b (Some (flit M 1)) rs = Inr (child, rs') \<and>
            weights child = weights a \<and> biases child = biases a"
    by (rule crossover_rate_one) (use assms in simp_all)
  show "\<exists>child rs'. crossover M a b (Some (flit M 0)) rs = Inr (child, rs') \<and>
            weights child = weights b \<and> biases child = biases b"
    by (rule crossover_rate_zero) (use assms in simp_all)
qed

text \<open>The theorem at two genomes of the topology \<open>[2, 1]\<close>, every draw being 1/2.\<close>

theorem crossover_extremes_witness:
  "layers one_small = layers two_one \<and> well_formed one_small \<and> well_formed two_one \<and>
   (\<forall>i. \<not> flt exact ((\<lambda>_. Fin (1 / 2)) i) (flit exact 0) \<and> flt exact ((\<lambda>_. Fin (1 / 2)) i) (flit exact 1)) \<and>
   (\<exists>child rs'. crossover exact one_small two_one (Some (flit exact 1)) (\<lambda>_. Fin (1 / 2)) = Inr (child, rs') \<and>
      weights child = weights one_small \<and> biases child = biases one_small) \<and>
   (\<exists>child rs'. crossover exact one_small two_one (Some (flit exact 0)) (\<lambda>_. Fin (1 / 2)) = Inr (child, rs') \<and>
      weights child = weights two_one \<and> biases child = biases two_one)"
proof -
  have l: "layers one_small = layers two_one"
    by (simp add: one_small_def two_one_def)
  have a: "well_formed one_small"
    by (simp add: well_formed_def one_small_def)
  have b: "well_formed two_one"
    by (simp add: well_formed_def two_one_def)
  have d: "\<forall>i. \<not> flt exact ((\<lambda>_. Fin (1 / 2)) i) (flit exact 0) \<and> flt exact ((\<lambda>_. Fin (1 / 2)) i) (flit exact 1)"
    by (simp add: exact_def)
  from crossover_extremes [OF l a b d] l a b d show ?thesis
    by blast
qed

section \<open>Forward evaluation and the length of the input\<close>

lemma each_neuron_total:
  "(\<And>j. j \<in> set js \<Longrightarrow> f j = Inr (g j)) \<Longrightarrow> each_neuron f js = Inr (map g js)"
  by (induction js) simp_all

lemma plain_layer_total:
  assumes "i < length (biases net)" and "activation net = NumFn f"
  shows "\<exists>out. plain_layer A net outputs wl i = Inr out \<and> length out = length wl"
proof -
  have "plain_layer A net outputs wl i
          = Inr (map (\<lambda>j. f (weighted_sum A outputs (wl ! j) (num_at A (biases net ! i) j))) [0..<length wl])"
    unfolding plain_layer_def
    by (rule each_neuron_total) (simp add: arr_at_def assms call_activation_def)
  then show ?thesis by simp
qed

lemma optimized_layer_total:
  assumes "i < length (biases net)" and "activation net = NumFn f" and "wl \<noteq> []"
  shows "\<exists>out. optimized_layer A net outputs wl i = Inr out \<and> length out = length wl"
proof -
  from assms(3) obtain w0 rest where wl: "wl = w0 # rest"
    by (cases wl) auto
  have "optimized_layer A net outputs (w0 # rest) i
          = Inr (map (\<lambda>j. f (unrolled_sum A outputs ((w0 # rest) ! j) (length w0) 0 (num_at A (biases net ! i) j)))
                   [0..<length (w0 # rest)])"
    unfolding optimized_layer_def list.case Let_def
    by (rule each_neuron_total) (simp add: arr_at_def assms call_activation_def)
  then show ?thesis
    unfolding wl by simp
qed

lemma propagate_total:
  assumes "\<And>k outputs. k < length wls \<Longrightarrow> \<exists>out. layer outputs (wls ! k) (i + k) = Inr out \<and> length out = length (wls ! k)"
  shows "\<exists>outs. propagate layer i outputs wls = Inr outs \<and> map length outs = map length wls"
  using assms
proof (induction wls arbitrary: i outputs)
  case Nil
  then show ?case by simp
next
  case (Cons wl wls)
  from Cons.prems [of 0 outputs] obtain out where o: "layer outputs wl i = Inr out" and l: "length out = length wl"
    by auto
  have "\<exists>outs. propagate layer (Suc i) out wls = Inr outs \<and> map length outs = map length wls"
  proof (rule Cons.IH)
    fix k outputs
    assume "k < length wls"
    then show "\<exists>out. layer outputs (wls ! k) (Suc i + k) = Inr out \<and> length out = length (wls ! k)"
      using Cons.prems [of "Suc k" outputs] by simp
  qed
  then obtain outs where r: "propagate layer (Suc i) out wls = Inr outs" and m: "map length outs = map length wls"
    by auto
  show ?case
    by (simp add: o r l m)
qed


lemma last_output_length:
  assumes "map length outs = map length wls" and "wls \<noteq> []"
  shows "length (last (inputs # outs)) = length (last wls)"
proof -
  from assms have ne: "outs \<noteq> []"
    by auto
  have "length (last outs) = last (map length outs)"
    using ne by (simp add: last_map)
  also have "\<dots> = length (last wls)"
    using assms by (simp add: last_map)
  finally show ?thesis
    using ne by simp
qed

text \<open>The input cut after \<open>n\<close> elements and, when shorter, filled up to \<open>n\<close>
  elements with NaN reads as the input itself at every index below \<open>n\<close>.\<close>

lemma num_at_cut_or_filled:
  "k < n \<Longrightarrow> num_at A (take n xs @ replicate (n - length xs) (fnan A)) k = num_at A xs k"
  by (auto simp: num_at_def nth_append)

text \<open>The sums of a neuron read the input at the indices of its weights only.\<close>

lemma weighted_sum_inputs:
  assumes "\<And>k. k < length ws \<Longrightarrow> num_at A xs k = num_at A ys k"
  shows "weighted_sum A xs ws sm = weighted_sum A ys ws sm"
  unfolding weighted_sum_def
  by (rule foldl_cong) (simp_all add: assms)

lemma remainder_sum_inputs:
  assumes "\<And>m. m < n \<Longrightarrow> num_at A xs m = num_at A ys m"
  shows "remainder_sum A xs ws n k sm = remainder_sum A ys ws n k sm"
  unfolding remainder_sum_def
  by (rule foldl_cong) (simp_all add: assms)

lemma unrolled_sum_inputs:
  assumes "\<And>m. m < n \<Longrightarrow> num_at A xs m = num_at A ys m"
  shows "unrolled_sum A xs ws n k sm = unrolled_sum A ys ws n k sm"
  using assms
proof (induction A xs ws n k sm rule: unrolled_sum.induct)
  case (1 A xs ws n k sm)
  show ?case
  proof (cases "k < n")
    case False
    then show ?thesis
      by (simp add: unrolled_sum_past)
  next
    case True
    show ?thesis
    proof (cases "k + 3 < n")
      case True
      then have k: "k < n" "k + 1 < n" "k + 2 < n" by simp_all
      have "unrolled_sum A xs ws n k sm
              = unrolled_sum A xs ws n (k + 4)
                  (fadd A sm (fadd A (fadd A (fadd A
                     (fmul A (num_at A xs k) (num_at A ws k))
                     (fmul A (num_at A xs (k + 1)) (num_at A ws (k + 1))))
                     (fmul A (num_at A xs (k + 2)) (num_at A ws (k + 2))))
                     (fmul A (num_at A xs (k + 3)) (num_at A ws (k + 3)))))"
        using True k(1) by (subst unrolled_sum.simps) simp
      also have "\<dots> = unrolled_sum A ys ws n (k + 4)
                  (fadd A sm (fadd A (fadd A (fadd A
                     (fmul A (num_at A xs k) (num_at A ws k))
                     (fmul A (num_at A xs (k + 1)) (num_at A ws (k + 1))))
                     (fmul A (num_at A xs (k + 2)) (num_at A ws (k + 2))))
                     (fmul A (num_at A xs (k + 3)) (num_at A ws (k + 3)))))"
        by (rule "1.IH"(1) [OF k(1) True "1.prems"])
      also have "\<dots> = unrolled_sum A ys ws n k sm"
        using True k by (subst (2) unrolled_sum.simps) (simp add: "1.prems")
      finally show ?thesis .
    next
      case False
      have "unrolled_sum A xs ws n k sm = remainder_sum A xs ws n k sm"
        using True False by (simp add: unrolled_sum.simps [of A xs ws n k] unrolled_sum_past)
      also have "\<dots> = remainder_sum A ys ws n k sm"
        by (rule remainder_sum_inputs) (rule "1.prems")
      also have "\<dots> = unrolled_sum A ys ws n k sm"
        using True False by (simp add: unrolled_sum.simps [of A ys ws n k] unrolled_sum_past)
      finally show ?thesis .
    qed
  qed
qed

lemma plain_layer_inputs:
  assumes "\<And>row k. row \<in> set wl \<Longrightarrow> k < length row \<Longrightarrow> num_at A xs k = num_at A ys k"
  shows "plain_layer A net xs wl i = plain_layer A net ys wl i"
  unfolding plain_layer_def
proof (rule each_neuron_cong)
  fix j
  assume "j \<in> set [0..<length wl]"
  then have "wl ! j \<in> set wl"
    by simp
  then have "weighted_sum A xs (wl ! j) sm = weighted_sum A ys (wl ! j) sm" for sm
    using assms by (intro weighted_sum_inputs) blast
  then show "(case arr_at (biases net) i of None \<Rightarrow> Inl TypeError
       | Some bl \<Rightarrow> call_activation (activation net) (weighted_sum A xs (wl ! j) (num_at A bl j))) =
      (case arr_at (biases net) i of None \<Rightarrow> Inl TypeError
       | Some bl \<Rightarrow> call_activation (activation net) (weighted_sum A ys (wl ! j) (num_at A bl j)))"
    by (simp only:)
qed

lemma optimized_layer_inputs:
  assumes "\<And>k. k < length (hd wl) \<Longrightarrow> num_at A xs k = num_at A ys k"
  shows "optimized_layer A net xs wl i = optimized_layer A net ys wl i"
proof (cases wl)
  case Nil
  then show ?thesis
    by (simp add: optimized_layer_def)
next
  case (Cons w0 rest)
  have "unrolled_sum A xs ws (length w0) 0 sm = unrolled_sum A ys ws (length w0) 0 sm" for ws sm
    using assms Cons by (intro unrolled_sum_inputs) simp
  then show ?thesis
    unfolding optimized_layer_def Cons list.case Let_def by (simp only:)
qed

lemma propagate_nonempty: "propagate layer i xs (wl # wls) = Inr outs \<Longrightarrow> outs \<noteq> []"
  by (auto split: sum.splits)


lemma outputs_of_propagate:
  assumes "propagate layer 0 xs (wl # wls) = propagate layer 0 ys (wl # wls)"
  shows "map_sum id fst (case propagate layer 0 xs (wl # wls) of
             Inl e \<Rightarrow> Inl e
           | Inr outs \<Rightarrow> Inr (last (xs # outs), net\<lparr>layerOutputs := xs # outs\<rparr>))
       = map_sum id fst (case propagate layer 0 ys (wl # wls) of
             Inl e \<Rightarrow> Inl e
           | Inr outs \<Rightarrow> Inr (last (ys # outs), net\<lparr>layerOutputs := ys # outs\<rparr>))"
proof (cases "propagate layer 0 ys (wl # wls)")
  case (Inl e)
  with assms show ?thesis by simp
next
  case (Inr outs)
  then have "outs \<noteq> []"
    by (rule propagate_nonempty)
  with assms Inr show ?thesis by simp
qed

text \<open>The outputs depend on the first \<open>layers ! 0\<close> elements of the input only, a
  missing one being NaN.\<close>

lemma feedForward_inputs:
  assumes "well_formed net" and "valid_topology (layers net)"
  shows "map_sum id fst (feedForward A net inputs)
       = map_sum id fst (feedForward A net
           (take (nat (hd (layers net))) inputs
              @ replicate (nat (hd (layers net)) - length inputs) (fnan A)))"
proof -
  let ?n0 = "nat (hd (layers net))"
  let ?xs = "take ?n0 inputs @ replicate (?n0 - length inputs) (fnan A)"
  from assms(2) have n: "2 \<le> length (layers net)" and pos: "\<forall>m \<in> set (layers net). 0 < m"
    by (simp_all add: valid_topology_def)
  from n have zero: "0 < length (layers net) - 1"
    by simp
  from n have hd0: "hd (layers net) = layers net ! 0"
    by (cases "layers net") simp_all
  from assms(1) n have lw: "length (weights net) = length (layers net) - 1"
    by (simp add: well_formed_def)
  with zero obtain wl wls where w: "weights net = wl # wls"
    by (cases "weights net") auto
  from assms(1) zero have "int (length (weights net ! 0)) = layers net ! (0 + 1)"
    and "\<forall>row \<in> set (weights net ! 0). int (length row) = layers net ! 0"
    by (simp_all add: well_formed_def)
  with w hd0 have rows: "\<forall>row \<in> set wl. length row = ?n0" and size: "int (length wl) = layers net ! 1"
    by auto
  from n pos have "0 < layers net ! 1"
    using nth_mem [of 1 "layers net"] by auto
  with size have "wl \<noteq> []"
    by auto
  then have "hd wl \<in> set wl"
    by simp
  with rows have first: "length (hd wl) = ?n0"
    by blast
  have same: "num_at A inputs k = num_at A ?xs k" if "k < ?n0" for k
    using num_at_cut_or_filled [OF that, of A inputs] by simp
  have "optimized_layer A net inputs wl 0 = optimized_layer A net ?xs wl 0"
    by (rule optimized_layer_inputs) (simp add: first same)
  then have opt: "propagate (optimized_layer A net) 0 inputs (wl # wls)
                    = propagate (optimized_layer A net) 0 ?xs (wl # wls)"
    by simp
  have "plain_layer A net inputs wl 0 = plain_layer A net ?xs wl 0"
    by (rule plain_layer_inputs) (use rows same in auto)
  then have plain: "propagate (plain_layer A net) 0 inputs (wl # wls)
                    = propagate (plain_layer A net) 0 ?xs (wl # wls)"
    by simp
  show ?thesis
  proof (cases "useOptimizedOperations net")
    case True
    have "feedForward A net zs = feedForwardOptimized A net zs" for zs
      using True by (simp add: feedForward_def)
    then show ?thesis
      unfolding feedForwardOptimized_def w
      using outputs_of_propagate [OF opt, of net] by (simp only:)
  next
    case False
    have "feedForward A net zs = feedForward_plain A net zs" for zs
      using False by (simp add: feedForward_def)
    then show ?thesis
      unfolding feedForward_plain_def w
      using outputs_of_propagate [OF plain, of net] by (simp only:)
  qed
qed

text \<open>No input makes the evaluation fail, and the output has the last layer size.\<close>

lemma feedForward_returns:
  assumes "well_formed net" and "valid_topology (layers net)" and "activation net = NumFn f"
  shows "\<exists>outputs net'. feedForward A net inputs = Inr (outputs, net') \<and>
           int (length outputs) = last (layers net)"
proof -
  let ?n = "length (layers net)"
  from assms(2) have n: "2 \<le> ?n" and pos: "\<forall>m \<in> set (layers net). 0 < m"
    by (simp_all add: valid_topology_def)
  from assms(1) have lw: "length (weights net) = ?n - 1" and lb: "length (biases net) = ?n - 1"
    and rows: "\<And>i. i < ?n - 1 \<Longrightarrow> int (length (weights net ! i)) = layers net ! (i + 1)"
    by (simp_all add: well_formed_def)
  have ne: "weights net \<noteq> []"
    using lw n by auto
  have nonempty: "weights net ! k \<noteq> []" if "k < length (weights net)" for k
  proof -
    from that lw have "k + 1 < ?n" by simp
    with pos have "0 < layers net ! (k + 1)"
      using nth_mem by blast
    with rows [of k] that lw show ?thesis by auto
  qed
  have lastw: "int (length (last (weights net))) = last (layers net)"
  proof -
    from n obtain m where m: "?n = Suc (Suc m)"
      by (metis Suc_le_D numeral_2_eq_2 Suc_le_mono)
    have "last (weights net) = weights net ! m"
      using ne lw m by (simp add: last_conv_nth)
    moreover have "last (layers net) = layers net ! Suc m"
      using m by (metis diff_Suc_1 last_conv_nth length_0_conv nat.distinct(1))
    ultimately show ?thesis
      using rows [of m] m by simp
  qed
  have opt: "\<exists>outs. propagate (optimized_layer A net) 0 inputs (weights net) = Inr outs \<and>
               map length outs = map length (weights net)"
    by (rule propagate_total) (simp add: optimized_layer_total assms(3) lw lb nonempty)
  have plain: "\<exists>outs. propagate (plain_layer A net) 0 inputs (weights net) = Inr outs \<and>
               map length outs = map length (weights net)"
    by (rule propagate_total) (simp add: plain_layer_total assms(3) lw lb)
  show ?thesis
  proof (cases "useOptimizedOperations net")
    case True
    from opt obtain outs where o: "propagate (optimized_layer A net) 0 inputs (weights net) = Inr outs"
      and m: "map length outs = map length (weights net)" by auto
    from last_output_length [OF m ne, of inputs] lastw
    have "int (length (last (inputs # outs))) = last (layers net)" by simp
    with True o show ?thesis
      by (simp add: feedForward_def feedForwardOptimized_def)
  next
    case False
    from plain obtain outs where o: "propagate (plain_layer A net) 0 inputs (weights net) = Inr outs"
      and m: "map length outs = map length (weights net)" by auto
    from last_output_length [OF m ne, of inputs] lastw
    have "int (length (last (inputs # outs))) = last (layers net)" by simp
    with False o show ?thesis
      by (simp add: feedForward_def feedForward_plain_def)
  qed
qed

text \<open>
  C3. The claim is that \<^verbatim>\<open>feedForward\<close> fails with \<^verbatim>\<open>DimensionMismatch\<close> on an
  input whose length is not the first layer size, and returns a vector of the last layer
  size on an input of that length. What holds: \<^verbatim>\<open>feedForward\<close> checks no length. On a
  genome of a valid topology and of the shape of its topology, bound to an activation on
  numbers, it returns a vector of the last layer size for every input, of whatever length,
  and that vector is the one it returns for the input cut after the first layer size and,
  when shorter, filled up to that size with NaN: an input beyond the first layer size is
  not read, and a missing input is \<^verbatim>\<open>undefined\<close>, NaN in the arithmetic.
\<close>

theorem feedForward_any_input:
  assumes "well_formed net" and "valid_topology (layers net)" and "activation net = NumFn f"
  shows "\<exists>outputs net' net''.
           feedForward A net inputs = Inr (outputs, net') \<and>
           int (length outputs) = last (layers net) \<and>
           feedForward A net
             (take (nat (hd (layers net))) inputs
                @ replicate (nat (hd (layers net)) - length inputs) (fnan A)) = Inr (outputs, net'')"
proof -
  let ?xs = "take (nat (hd (layers net))) inputs
                @ replicate (nat (hd (layers net)) - length inputs) (fnan A)"
  from feedForward_returns [OF assms, of A inputs] obtain outputs net'
    where r: "feedForward A net inputs = Inr (outputs, net')"
      and l: "int (length outputs) = last (layers net)"
    by blast
  from feedForward_inputs [OF assms(1,2), of A inputs] r
  have "map_sum id fst (feedForward A net ?xs) = Inr outputs"
    by simp
  then obtain net'' where "feedForward A net ?xs = Inr (outputs, net'')"
    by (cases "feedForward A net ?xs") auto
  with r l show ?thesis
    by blast
qed

text \<open>The theorem at a genome of the topology \<open>[2, 1]\<close> and an input of length 3,
  which evaluates as its first two elements do.\<close>

theorem feedForward_any_input_witness:
  "well_formed one_small \<and> valid_topology (layers one_small) \<and>
   activation one_small = NumFn (sigmoid exact) \<and>
   (\<exists>outputs net' net''.
      feedForward exact one_small [Fin 1, Fin 2, Fin 3] = Inr (outputs, net') \<and>
      int (length outputs) = last (layers one_small) \<and>
      feedForward exact one_small [Fin 1, Fin 2] = Inr (outputs, net''))"
proof -
  have w: "well_formed one_small"
    by (simp add: well_formed_def one_small_def)
  have v: "valid_topology (layers one_small)"
    by (simp add: valid_topology_def one_small_def)
  have a: "activation one_small = NumFn (sigmoid exact)"
    by (simp add: one_small_def)
  have c: "take (nat (hd (layers one_small))) [Fin 1, Fin 2, Fin 3 :: real ext]
             @ replicate (nat (hd (layers one_small)) - length [Fin 1, Fin 2, Fin 3 :: real ext]) (fnan exact)
           = [Fin 1, Fin 2]"
    by (simp add: one_small_def)
  from feedForward_any_input [OF w v a, of exact "[Fin 1, Fin 2, Fin 3]"] w v a show ?thesis
    unfolding c by blast
qed

text \<open>The same genome on an input of length 1: no failure, the output is NaN.\<close>

theorem feedForward_short_input_counterexample:
  "map_sum id fst (feedForward exact one_small [Fin 1]) = Inr [NaN]"
  by (simp add: feedForward_def feedForwardOptimized_def optimized_layer_def one_small_def
      arr_at_def num_at_def call_activation_def unrolled_sum.simps remainder_sum_def
      sigmoid_def exact_def)

section \<open>Construction\<close>

lemma init_neuron_length: "length (fst (init_neuron A weightScale n rs)) = n"
proof (induction n arbitrary: rs)
  case 0
  then show ?case by simp
next
  case (Suc n)
  from Suc.IH [of "advance rs"] show ?case
    by (cases "init_neuron A weightScale n (advance rs)") (simp add: Let_def)
qed

lemma init_layer_shape:
  "init_layer A weightScale fanIn n rs = (layerWeights, layerBiases, rs') \<Longrightarrow>
     length layerWeights = n \<and> length layerBiases = n \<and> (\<forall>row \<in> set layerWeights. length row = fanIn)"
proof (induction n arbitrary: rs layerWeights layerBiases rs')
  case 0
  then show ?case by simp
next
  case (Suc n)
  obtain neuronWeights rs1 where a: "init_neuron A weightScale fanIn rs = (neuronWeights, rs1)"
    by (cases "init_neuron A weightScale fanIn rs")
  obtain lw lb rs2 where b: "init_layer A weightScale fanIn n (advance rs1) = (lw, lb, rs2)"
    by (cases "init_layer A weightScale fanIn n (advance rs1)")
  from init_neuron_length [of A weightScale fanIn rs] a have "length neuronWeights = fanIn"
    by simp
  with Suc.IH [OF b] Suc.prems a b show ?case
    by (auto simp: Let_def)
qed

lemma init_layers_shape:
  "init_layers M ls rs = (ws, bs, rs') \<Longrightarrow>
     length ws = length ls - 1 \<and> length bs = length ls - 1 \<and>
     (\<forall>i < length ls - 1.
        length (ws ! i) = nat (ls ! (i + 1)) \<and> length (bs ! i) = nat (ls ! (i + 1)) \<and>
        (\<forall>row \<in> set (ws ! i). length row = nat (ls ! i)))"
proof (induction M ls rs arbitrary: ws bs rs' rule: init_layers.induct)
  case (1 M fanIn fanOut rest rs)
  let ?scale = "fsqrt M (fdiv M (flit M 2) (fadd M (flit M (of_int fanIn)) (flit M (of_int fanOut))))"
  obtain lw lb rs1 where a: "init_layer M ?scale (nat fanIn) (nat fanOut) rs = (lw, lb, rs1)"
    by (cases "init_layer M ?scale (nat fanIn) (nat fanOut) rs")
  obtain ws2 bs2 rs2 where b: "init_layers M (fanOut # rest) rs1 = (ws2, bs2, rs2)"
    by (cases "init_layers M (fanOut # rest) rs1")
  from "1.prems" a b have ws: "ws = lw # ws2" and bs: "bs = lb # bs2"
    by (simp_all add: Let_def)
  note first = init_layer_shape [OF a]
  have rest: "length ws2 = length (fanOut # rest) - 1 \<and> length bs2 = length (fanOut # rest) - 1 \<and>
     (\<forall>i < length (fanOut # rest) - 1.
        length (ws2 ! i) = nat ((fanOut # rest) ! (i + 1)) \<and> length (bs2 ! i) = nat ((fanOut # rest) ! (i + 1)) \<and>
        (\<forall>row \<in> set (ws2 ! i). length row = nat ((fanOut # rest) ! i)))"
    by (rule "1.IH" [OF refl refl a [symmetric] refl b])
  show ?case
    unfolding ws bs
  proof (intro conjI allI impI)
    show "length (lw # ws2) = length (fanIn # fanOut # rest) - 1"
      using rest by simp
    show "length (lb # bs2) = length (fanIn # fanOut # rest) - 1"
      using rest by simp
  next
    fix i
    assume i: "i < length (fanIn # fanOut # rest) - 1"
    show "length ((lw # ws2) ! i) = nat ((fanIn # fanOut # rest) ! (i + 1))"
      using first rest i by (cases i) simp_all
    show "length ((lb # bs2) ! i) = nat ((fanIn # fanOut # rest) ! (i + 1))"
      using first rest i by (cases i) simp_all
    show "\<forall>row \<in> set ((lw # ws2) ! i). length row = nat ((fanIn # fanOut # rest) ! i)"
      using first rest i by (cases i) simp_all
  qed
qed simp_all


lemma NeuralNetwork_initialized:
  assumes "opt_weights opts = None \<or> opt_biases opts = None"
    and "init_layers M (case opt_layers opts of None \<Rightarrow> [3, 4, 2] | Some l \<Rightarrow> l) rs = (ws, bs, rs')"
  shows "layers (fst (NeuralNetwork M opts rs)) = (case opt_layers opts of None \<Rightarrow> [3, 4, 2] | Some l \<Rightarrow> l)"
    and "weights (fst (NeuralNetwork M opts rs)) = ws"
    and "biases (fst (NeuralNetwork M opts rs)) = bs"
  using assms by (auto simp: NeuralNetwork_def initialize_def Let_def split: option.splits)

text \<open>
  C4. The claim is that the construction of a genome fails with \<^verbatim>\<open>InvalidTopology\<close>
  on a topology of fewer than 2 entries or with an entry that is not positive. What holds:
  the constructor validates nothing and has no failure. Whatever the topology, when it
  initialises the parameters itself it returns a genome with that topology, one weight
  matrix and one bias vector per pair of consecutive layers (none for fewer than 2
  entries), a size that is not positive counting as 0 neurons or 0 weights.
\<close>

theorem NeuralNetwork_any_topology:
  assumes "opt_layers opts = Some topology" and "opt_weights opts = None \<or> opt_biases opts = None"
  shows "layers (fst (NeuralNetwork M opts rs)) = topology \<and>
         length (weights (fst (NeuralNetwork M opts rs))) = length topology - 1 \<and>
         length (biases (fst (NeuralNetwork M opts rs))) = length topology - 1 \<and>
         (\<forall>i < length topology - 1.
            length (weights (fst (NeuralNetwork M opts rs)) ! i) = nat (topology ! (i + 1)) \<and>
            length (biases (fst (NeuralNetwork M opts rs)) ! i) = nat (topology ! (i + 1)) \<and>
            (\<forall>row \<in> set (weights (fst (NeuralNetwork M opts rs)) ! i). length row = nat (topology ! i)))"
proof -
  obtain ws bs rs' where i: "init_layers M topology rs = (ws, bs, rs')"
    by (cases "init_layers M topology rs")
  then have i': "init_layers M (case opt_layers opts of None \<Rightarrow> [3, 4, 2] | Some l \<Rightarrow> l) rs = (ws, bs, rs')"
    by (simp add: assms(1))
  note net = NeuralNetwork_initialized [OF assms(2) i']
  from init_layers_shape [OF i] show ?thesis
    unfolding net by (simp add: assms(1))
qed

text \<open>The theorem at the topology \<open>[2, 0, 3]\<close>.\<close>

theorem NeuralNetwork_any_topology_witness:
  "opt_layers \<lparr>opt_layers = Some [2, 0, 3], opt_activation = None, opt_activationName = None,
      opt_weights = None, opt_biases = (None :: real ext list list option)\<rparr> = Some [2, 0, 3] \<and>
   layers (fst (NeuralNetwork exact \<lparr>opt_layers = Some [2, 0, 3], opt_activation = None,
      opt_activationName = None, opt_weights = None, opt_biases = None\<rparr> (\<lambda>_. Fin (1 / 2)))) = [2, 0, 3] \<and>
   length (weights (fst (NeuralNetwork exact \<lparr>opt_layers = Some [2, 0, 3], opt_activation = None,
      opt_activationName = None, opt_weights = None, opt_biases = None\<rparr> (\<lambda>_. Fin (1 / 2))))) = 2"
  using NeuralNetwork_any_topology [of "\<lparr>opt_layers = Some [2, 0, 3], opt_activation = None,
      opt_activationName = None, opt_weights = None, opt_biases = None\<rparr>" "[2, 0, 3]" exact "\<lambda>_. Fin (1 / 2)"]
  by simp

text \<open>The topologies \<open>[3]\<close> and \<open>[2, 0]\<close> give genomes: the first without any
  layer of weights, the second with one layer of no neuron.\<close>

theorem NeuralNetwork_invalid_topology_counterexample:
  "fst (NeuralNetwork exact \<lparr>opt_layers = Some [3], opt_activation = None, opt_activationName = None,
      opt_weights = None, opt_biases = None\<rparr> (\<lambda>_. Fin (1 / 2)))
     = \<lparr>layers = [3], activation = NumFn (sigmoid exact), activationName = ''sigmoid'',
        weights = [], biases = [], layerOutputs = [], useOptimizedOperations = True\<rparr> \<and>
   fst (NeuralNetwork exact \<lparr>opt_layers = Some [2, 0], opt_activation = None, opt_activationName = None,
      opt_weights = None, opt_biases = None\<rparr> (\<lambda>_. Fin (1 / 2)))
     = \<lparr>layers = [2, 0], activation = NumFn (sigmoid exact), activationName = ''sigmoid'',
        weights = [[]], biases = [[]], layerOutputs = [], useOptimizedOperations = True\<rparr>"
  by (simp add: NeuralNetwork_def initialize_def)

text \<open>A topology without a negative size gives a genome of the shape of its topology.\<close>

lemma NeuralNetwork_well_formed:
  assumes "opt_layers opts = Some topology" and "opt_weights opts = None \<or> opt_biases opts = None"
    and "\<forall>n \<in> set topology. 0 \<le> n"
  shows "well_formed (fst (NeuralNetwork M opts rs))"
proof -
  obtain ws bs rs' where i: "init_layers M topology rs = (ws, bs, rs')"
    by (cases "init_layers M topology rs")
  then have i': "init_layers M (case opt_layers opts of None \<Rightarrow> [3, 4, 2] | Some l \<Rightarrow> l) rs = (ws, bs, rs')"
    by (simp add: assms(1))
  note net = NeuralNetwork_initialized [OF assms(2) i']
  have nn: "0 \<le> topology ! k" if "k < length topology" for k
    using assms(3) that by simp
  from init_layers_shape [OF i] show ?thesis
    unfolding well_formed_def net by (auto simp: assms(1) nn)
qed

section \<open>Serialization\<close>

lemma fromJSON_toJSON_eq:
  assumes "bound_by_name M net"
  shows "fst (fromJSON M (toJSON net) rs) = net\<lparr>layerOutputs := [], useOptimizedOperations := True\<rparr>"
  using assms by (simp add: fromJSON_def toJSON_def NeuralNetwork_def bound_by_name_def)

lemma optimized_layer_cache:
  "optimized_layer A (net\<lparr>layerOutputs := c, useOptimizedOperations := b\<rparr>) = optimized_layer A net"
  by (intro ext) (simp add: optimized_layer_def cong: list.case_cong option.case_cong)

text \<open>
  C2. The claim is that \<^verbatim>\<open>fromJSON(toJSON(G))\<close> evaluates as \<^verbatim>\<open>G\<close> does, for every
  genome. What holds: \<^verbatim>\<open>toJSON\<close> keeps the name of the activation and not the function,
  so for a genome whose activation is the one \<^verbatim>\<open>fromJSON\<close> binds to its name, and whose
  flag \<^verbatim>\<open>useOptimizedOperations\<close> is as the constructor sets it, the topology, the
  weights, the biases, the name and the activation are preserved and the forward evaluation
  of every input is the same.
\<close>

theorem fromJSON_toJSON:
  assumes "bound_by_name M net" and "useOptimizedOperations net"
  shows "layers (fst (fromJSON M (toJSON net) rs)) = layers net \<and>
         weights (fst (fromJSON M (toJSON net) rs)) = weights net \<and>
         biases (fst (fromJSON M (toJSON net) rs)) = biases net \<and>
         activationName (fst (fromJSON M (toJSON net) rs)) = activationName net \<and>
         activation (fst (fromJSON M (toJSON net) rs)) = activation net \<and>
         feedForward A (fst (fromJSON M (toJSON net) rs)) v = feedForward A net v"
proof -
  have "net\<lparr>layerOutputs := c, useOptimizedOperations := True\<rparr> = net\<lparr>layerOutputs := c\<rparr>" for c
    using assms(2) by simp
  then show ?thesis
    unfolding fromJSON_toJSON_eq [OF assms(1)]
    by (simp add: feedForward_def feedForwardOptimized_def optimized_layer_cache assms(2)
        split: sum.splits)
qed

text \<open>The theorem at a genome bound to \<^verbatim>\<open>sigmoid\<close> under the name \<^verbatim>\<open>sigmoid\<close>.\<close>

theorem fromJSON_toJSON_witness:
  "bound_by_name exact one_small \<and> useOptimizedOperations one_small \<and>
   weights (fst (fromJSON exact (toJSON one_small) (\<lambda>_. Fin (1 / 2)))) = weights one_small \<and>
   activation (fst (fromJSON exact (toJSON one_small) (\<lambda>_. Fin (1 / 2)))) = activation one_small \<and>
   feedForward exact (fst (fromJSON exact (toJSON one_small) (\<lambda>_. Fin (1 / 2)))) [Fin 1, Fin 1]
     = feedForward exact one_small [Fin 1, Fin 1]"
proof -
  have b: "bound_by_name exact one_small"
    by (simp add: bound_by_name_def one_small_def activationMap_def)
  have u: "useOptimizedOperations one_small"
    by (simp add: one_small_def)
  from fromJSON_toJSON [OF b u] b u show ?thesis
    by blast
qed

text \<open>A genome built with \<^verbatim>\<open>activation: NeuralNetwork.relu\<close> and no name is named
  \<^verbatim>\<open>sigmoid\<close>: on the input 20 it returns 20, and after the round trip 1.\<close>

theorem fromJSON_toJSON_counterexample:
  "map_sum id fst (feedForward exact relu_unnamed [Fin 20]) = Inr [Fin 20] \<and>
   map_sum id fst (feedForward exact (fst (fromJSON exact (toJSON relu_unnamed) (\<lambda>_. Fin (1 / 2)))) [Fin 20])
     = Inr [Fin 1]"
  by (simp add: feedForward_def feedForwardOptimized_def optimized_layer_def relu_unnamed_def
      NeuralNetwork_def fromJSON_def toJSON_def activationMap_def
      arr_at_def num_at_def call_activation_def unrolled_sum.simps remainder_sum_def
      sigmoid_def relu_def exact_def)

text \<open>
  C10. The claim is that for every name outside the four of the table \<^verbatim>\<open>fromJSON\<close>
  binds \<^verbatim>\<open>sigmoid\<close> and keeps the name. What holds: for a name outside the four that is
  not a property name of \<^verbatim>\<open>Object.prototype\<close>, \<^verbatim>\<open>fromJSON\<close> binds \<^verbatim>\<open>sigmoid\<close>; it
  keeps the name when the name is not empty, and stores \<^verbatim>\<open>sigmoid\<close> for the empty
  name, which \<^verbatim>\<open>toJSON\<close> then returns.
\<close>

theorem fromJSON_unrecognized:
  assumes "json_activationName json = Some name"
    and "name \<notin> {''sigmoid'', ''relu'', ''tanh'', ''leakyRelu''}"
    and "name \<notin> set object_prototype_keys"
  shows "activation (fst (fromJSON M json rs)) = NumFn (sigmoid M) \<and>
         activationName (fst (fromJSON M json rs)) = (if name = [] then ''sigmoid'' else name) \<and>
         json_activationName (toJSON (fst (fromJSON M json rs)))
           = Some (if name = [] then ''sigmoid'' else name)"
  using assms
  by (simp add: fromJSON_def toJSON_def NeuralNetwork_def activationMap_def initialize_def Let_def
      split: option.splits prod.splits)

text \<open>The theorem at the name \<^verbatim>\<open>swish\<close>.\<close>

theorem fromJSON_unrecognized_witness:
  "json_activationName (named_record ''swish'') = Some ''swish'' \<and>
   ''swish'' \<notin> {''sigmoid'', ''relu'', ''tanh'', ''leakyRelu''} \<and>
   ''swish'' \<notin> set object_prototype_keys \<and>
   activation (fst (fromJSON exact (named_record ''swish'') (\<lambda>_. Fin (1 / 2)))) = NumFn (sigmoid exact) \<and>
   json_activationName (toJSON (fst (fromJSON exact (named_record ''swish'') (\<lambda>_. Fin (1 / 2)))))
     = Some ''swish''"
proof -
  have a: "json_activationName (named_record ''swish'') = Some ''swish''"
    by (simp add: named_record_def)
  have b: "''swish'' \<notin> {''sigmoid'', ''relu'', ''tanh'', ''leakyRelu''}"
    by simp
  have c: "''swish'' \<notin> set object_prototype_keys"
    by (simp add: object_prototype_keys_def)
  from fromJSON_unrecognized [OF a b c, of exact "\<lambda>_. Fin (1 / 2)"] a b c show ?thesis
    by simp
qed

text \<open>The empty name is replaced by \<^verbatim>\<open>sigmoid\<close>; the name \<^verbatim>\<open>toString\<close> is found
  in the table, inherited, and bound.\<close>

theorem fromJSON_unrecognized_counterexample:
  "json_activationName (toJSON (fst (fromJSON exact (named_record '''') (\<lambda>_. Fin (1 / 2)))))
     = Some ''sigmoid'' \<and>
   activation (fst (fromJSON exact (named_record ''toString'') (\<lambda>_. Fin (1 / 2))))
     = ObjectProtoMember ''toString''"
  by (simp add: fromJSON_def toJSON_def NeuralNetwork_def activationMap_def named_record_def
      object_prototype_keys_def)

section \<open>Difference\<close>

lemma for_loop_append:
  "for_loop body (is @ js) s = (case for_loop body is s of Inl e \<Rightarrow> Inl e | Inr s' \<Rightarrow> for_loop body js s')"
  by (induction "is" arbitrary: s) (simp_all split: sum.splits)

lemma for_loop_foldl:
  assumes "\<And>k s. k < length xs \<Longrightarrow> body k s = Inr (step s (xs ! k))"
  shows "for_loop body [0..<length xs] s = Inr (foldl step s xs)"
  using assms
proof (induction xs arbitrary: s rule: rev_induct)
  case Nil
  then show ?case by simp
next
  case (snoc x xs)
  have "for_loop body [0..<length xs] s = Inr (foldl step s xs)"
  proof (rule snoc.IH)
    fix k s
    assume "k < length xs"
    then show "body k s = Inr (step s (xs ! k))"
      using snoc.prems [of k s] by (simp add: nth_append)
  qed
  moreover have "body (length xs) s' = Inr (step s' x)" for s'
    using snoc.prems [of "length xs" s'] by simp
  ultimately show ?case
    by (simp add: for_loop_append)
qed

lemma foldl_zip_concat:
  assumes "map length xss = map length yss"
  shows "foldl (\<lambda>s (xs, ys). foldl step s (zip xs ys)) s (zip xss yss)
           = foldl step s (zip (concat xss) (concat yss))"
proof -
  from assms have "length xss = length yss"
    by (rule map_eq_imp_length_eq)
  then show ?thesis
    using assms by (induction xss yss arbitrary: s rule: list_induct2) simp_all
qed

lemma same_shape_nth:
  assumes "map length xss = map length yss" and "i < length xss"
  shows "length (yss ! i) = length (xss ! i)"
proof -
  from assms(1) have l: "length xss = length yss"
    by (rule map_eq_imp_length_eq)
  have "map length yss ! i = map length xss ! i"
    using assms(1) by simp
  then show ?thesis
    using assms(2) l by simp
qed


lemma concat_map_concat: "concat (map concat xsss) = concat (concat xsss)"
  by (induction xsss) simp_all

lemma length_map_concat: "map length (map concat zsss) = map sum_list (map (map length) zsss)"
  by (induction zsss) (simp_all add: length_concat)

lemma same_shape_concat:
  assumes "map (map length) xsss = map (map length) ysss"
  shows "map length (map concat xsss) = map length (map concat ysss)"
  by (simp only: length_map_concat assms)

lemma foldl_zip_concat_concat:
  assumes "map (map length) xsss = map (map length) ysss"
  shows "foldl (\<lambda>s (xss, yss). foldl step s (zip (concat xss) (concat yss))) s (zip xsss ysss)
           = foldl step s (zip (concat (concat xsss)) (concat (concat ysss)))"
proof -
  have "foldl (\<lambda>s (xss, yss). foldl step s (zip (concat xss) (concat yss))) s (zip xsss ysss)
          = foldl (\<lambda>s (xs, ys). foldl step s (zip xs ys)) s (zip (map concat xsss) (map concat ysss))"
    by (simp add: zip_map_map foldl_map case_prod_unfold)
  also have "\<dots> = foldl step s (zip (concat (map concat xsss)) (concat (map concat ysss)))"
    by (rule foldl_zip_concat) (rule same_shape_concat [OF assms])
  also have "\<dots> = foldl step s (zip (concat (concat xsss)) (concat (concat ysss)))"
    by (simp only: concat_map_concat)
  finally show ?thesis .
qed


lemma tally_fold:
  "foldl (\<lambda>st (x, y). (fadd A (fst st) (fabs A (fsub A x y)), Suc (snd st))) (t, c) zs
     = (foldl (\<lambda>t (x, y). fadd A t (fabs A (fsub A x y))) t zs, c + length zs)"
  by (induction zs arbitrary: t c) (simp_all add: case_prod_unfold)

lemma difference_weights:
  assumes "map (map length) wb = map (map length) wa"
  shows "for_loop (\<lambda>i.
             for_loop (\<lambda>j.
               for_loop (\<lambda>k. tally A (wa ! i ! j ! k) (weight_at A wb i j k))
                 [0..<length (wa ! i ! j)])
               [0..<length (wa ! i)])
             [0..<length wa] st
         = Inr (foldl (\<lambda>st (x, y). (fadd A (fst st) (fabs A (fsub A x y)), Suc (snd st))) st
                  (zip (concat (concat wa)) (concat (concat wb))))"
proof -
  let ?step = "\<lambda>st (x, y). (fadd A (fst st) (fabs A (fsub A x y)), Suc (snd st))"
  from assms have len: "length wb = length wa"
    by (rule map_eq_imp_length_eq)
  have shape_i: "map length (wb ! i) = map length (wa ! i)" if "i < length wa" for i
  proof -
    have "map (map length) wb ! i = map (map length) wa ! i"
      using assms by simp
    then show ?thesis
      using that len by simp
  qed
  have len_i: "length (wb ! i) = length (wa ! i)" if "i < length wa" for i
    using shape_i [OF that] by (rule map_eq_imp_length_eq)
  have len_j: "length (wb ! i ! j) = length (wa ! i ! j)" if "i < length wa" "j < length (wa ! i)" for i j
    using same_shape_nth [OF shape_i [OF that(1), symmetric] that(2)] .
  have row: "for_loop (\<lambda>k. tally A (wa ! i ! j ! k) (weight_at A wb i j k)) [0..<length (wa ! i ! j)] st
               = Inr (foldl ?step st (zip (wa ! i ! j) (wb ! i ! j)))"
    if "i < length wa" "j < length (wa ! i)" for i j st
  proof -
    have "for_loop (\<lambda>k. tally A (wa ! i ! j ! k) (weight_at A wb i j k))
            [0..<length (zip (wa ! i ! j) (wb ! i ! j))] st
               = Inr (foldl ?step st (zip (wa ! i ! j) (wb ! i ! j)))"
      by (rule for_loop_foldl)
         (use that len len_i [OF that(1)] len_j [OF that] in
           \<open>simp add: tally_def weight_at_def arr_at_def num_at_def\<close>)
    then show ?thesis
      using len_j [OF that] by simp
  qed
  have layer: "for_loop (\<lambda>j. for_loop (\<lambda>k. tally A (wa ! i ! j ! k) (weight_at A wb i j k))
                 [0..<length (wa ! i ! j)]) [0..<length (wa ! i)] st
               = Inr (foldl ?step st (zip (concat (wa ! i)) (concat (wb ! i))))"
    if "i < length wa" for i st
  proof -
    have "for_loop (\<lambda>j. for_loop (\<lambda>k. tally A (wa ! i ! j ! k) (weight_at A wb i j k))
                 [0..<length (wa ! i ! j)]) [0..<length (zip (wa ! i) (wb ! i))] st
            = Inr (foldl (\<lambda>s (xs, ys). foldl ?step s (zip xs ys)) st (zip (wa ! i) (wb ! i)))"
      by (rule for_loop_foldl) (use that len_i [OF that] in \<open>simp add: row\<close>)
    then show ?thesis
      using len_i [OF that] foldl_zip_concat [OF shape_i [OF that, symmetric], of ?step st]
      by simp
  qed
  have "for_loop (\<lambda>i.
             for_loop (\<lambda>j.
               for_loop (\<lambda>k. tally A (wa ! i ! j ! k) (weight_at A wb i j k))
                 [0..<length (wa ! i ! j)])
               [0..<length (wa ! i)])
             [0..<length (zip wa wb)] st
          = Inr (foldl (\<lambda>s (xss, yss). foldl ?step s (zip (concat xss) (concat yss))) st (zip wa wb))"
    by (rule for_loop_foldl) (use len in \<open>simp add: layer\<close>)
  then show ?thesis
    using len foldl_zip_concat_concat [OF assms [symmetric], of ?step st] by simp
qed


lemma difference_biases:
  assumes "map length bb = map length ba"
  shows "for_loop (\<lambda>i.
             for_loop (\<lambda>j. tally A (ba ! i ! j) (bias_at A bb i j))
               [0..<length (ba ! i)])
             [0..<length ba] st
         = Inr (foldl (\<lambda>st (x, y). (fadd A (fst st) (fabs A (fsub A x y)), Suc (snd st))) st
                  (zip (concat ba) (concat bb)))"
proof -
  let ?step = "\<lambda>st (x, y). (fadd A (fst st) (fabs A (fsub A x y)), Suc (snd st))"
  from assms have len: "length bb = length ba"
    by (rule map_eq_imp_length_eq)
  have len_i: "length (bb ! i) = length (ba ! i)" if "i < length ba" for i
    using same_shape_nth [OF assms [symmetric] that] .
  have row: "for_loop (\<lambda>j. tally A (ba ! i ! j) (bias_at A bb i j)) [0..<length (ba ! i)] st
               = Inr (foldl ?step st (zip (ba ! i) (bb ! i)))"
    if "i < length ba" for i st
  proof -
    have "for_loop (\<lambda>j. tally A (ba ! i ! j) (bias_at A bb i j)) [0..<length (zip (ba ! i) (bb ! i))] st
               = Inr (foldl ?step st (zip (ba ! i) (bb ! i)))"
      by (rule for_loop_foldl)
         (use that len len_i [OF that] in \<open>simp add: tally_def bias_at_def arr_at_def num_at_def\<close>)
    then show ?thesis
      using len_i [OF that] by simp
  qed
  have "for_loop (\<lambda>i. for_loop (\<lambda>j. tally A (ba ! i ! j) (bias_at A bb i j)) [0..<length (ba ! i)])
             [0..<length (zip ba bb)] st
          = Inr (foldl (\<lambda>s (xs, ys). foldl ?step s (zip xs ys)) st (zip ba bb))"
    by (rule for_loop_foldl) (use len in \<open>simp add: row\<close>)
  then show ?thesis
    using len foldl_zip_concat [OF assms [symmetric], of ?step st] by simp
qed

text \<open>On two genomes of the same shape \<^verbatim>\<open>difference\<close> returns the mean absolute
  difference of their parameters, summed in the order of the source.\<close>

lemma difference_same_shape:
  assumes "map (map length) (weights other) = map (map length) (weights net)"
    and "map length (biases other) = map length (biases net)"
  shows "difference A net other = Inr (mean_absolute_difference A (parameters net) (parameters other))"
proof -
  let ?step = "\<lambda>st (x, y). (fadd A (fst st) (fabs A (fsub A x y)), Suc (snd st))"
  let ?W = "zip (concat (concat (weights net))) (concat (concat (weights other)))"
  let ?B = "zip (concat (biases net)) (concat (biases other))"
  have lw: "length (concat (concat (weights other))) = length (concat (concat (weights net)))"
  proof -
    have "map length (map concat (weights other)) = map length (map concat (weights net))"
      by (rule same_shape_concat [OF assms(1)])
    then have "sum_list (map length (map concat (weights other))) = sum_list (map length (map concat (weights net)))"
      by simp
    then show ?thesis
      by (simp only: length_concat [symmetric] concat_map_concat)
  qed
  have lb: "length (concat (biases other)) = length (concat (biases net))"
    by (simp add: length_concat assms(2))
  have z: "zip (parameters net) (parameters other) = ?W @ ?B"
    using lw by (simp add: parameters_def)
  have "foldl ?step (foldl ?step (flit A 0, 0) ?W) ?B
          = (foldl (\<lambda>t (x, y). fadd A t (fabs A (fsub A x y))) (flit A 0) (zip (parameters net) (parameters other)),
             length (parameters net))"
    using lw lb by (simp add: z tally_fold foldl_append [symmetric] parameters_def del: foldl_append)
  then show ?thesis
    by (simp add: difference_def difference_weights [OF assms(1)] difference_biases [OF assms(2)]
        mean_absolute_difference_def)
qed

text \<open>
  C5. The claim is that \<^verbatim>\<open>difference\<close> fails with \<^verbatim>\<open>IncompatibleTopology\<close> on two
  genomes of different topologies. The source has no such check, where \<^verbatim>\<open>crossover\<close>
  has one: between the topologies \<open>[1, 1]\<close> and \<open>[2, 1]\<close> it returns 0 one way, the
  weights that only the second genome has being never read, and NaN the other way, a
  missing weight being \<^verbatim>\<open>undefined\<close>; against a genome with no layer of weights it
  throws a \<^verbatim>\<open>TypeError\<close>.
\<close>

theorem difference_mismatch:
  "layers narrow \<noteq> layers two_one \<and>
   difference exact narrow two_one = Inr (Fin 0) \<and>
   difference exact two_one narrow = Inr NaN \<and>
   difference exact two_one no_layers = Inl TypeError"
  by (simp add: difference_def tally_def weight_at_def bias_at_def arr_at_def num_at_def
      narrow_def two_one_def no_layers_def exact_def)

end
